theory Spec2Isabelle
  imports Main
begin

section \<open>Data model (types.ts, context/types.ts)\<close>

text \<open>
  Strings are \<open>string\<close>. A tool's \<open>input\<close>, a tool's \<open>input_schema\<close> and a
  message's \<open>toolInput\<close> are opaque objects that the orchestrator only copies; they are
  kept as their JSON text. The \<open>timestamp\<close> of a message is written by \<open>new Date()\<close>
  and never read by the orchestrator; it is left out of the records.
\<close>

type_synonym json = string

text \<open>
  \<open>MessageContent\<close>: the tagged union of types.ts. The third field of \<open>ToolResult\<close>
  is \<open>is_error\<close>, which handleSendMessage writes on the block it builds when a tool
  fails (absent counts as \<open>False\<close>).
\<close>

datatype MessageContent =
    Text string
  | ToolUse string string json
  | ToolResult string string bool

datatype Role = user | assistant

text \<open>\<open>content: MessageContent[] | string\<close>\<close>

datatype MessageBody = Blocks "MessageContent list" | Plain string

record Message =
  role :: Role
  content :: MessageBody
  toolInput :: "json option"

fun is_tool_use :: "MessageContent \<Rightarrow> bool" where
  "is_tool_use (ToolUse i n inp) = True"
| "is_tool_use c = False"

fun is_tool_result :: "MessageContent \<Rightarrow> bool" where
  "is_tool_result (ToolResult i c e) = True"
| "is_tool_result c = False"

section \<open>The payload sent to the provider\<close>

text \<open>
  A block of the payload is a stored block, possibly spread into a new object with a
  \<open>cache_control: {type: 'ephemeral'}\<close> field (\<open>cache_control\<close>) and, by the elision
  rewrite \<open>{...msg.content[0], content: 'elided'}\<close>, with a \<open>content\<close> field. On a
  \<open>tool_result\<close> block that spread overwrites the block's own \<open>content\<close>; on any
  other block it adds a field the block's type does not have, kept in \<open>extra_content\<close>.
\<close>

record ApiBlock =
  block :: MessageContent
  cache_control :: bool
  extra_content :: "string option"

datatype ApiBody = ApiBlocks "ApiBlock list" | ApiPlain string

record ApiMessage =
  api_role :: Role
  api_content :: ApiBody
  api_toolInput :: "json option"

definition plain_block :: "MessageContent \<Rightarrow> ApiBlock" where
  "plain_block c = \<lparr>block = c, cache_control = False, extra_content = None\<rparr>"

text \<open>
  \<open>m.content.map((c, index, array) => index != array.length - 1 ? c :
  {...c, cache_control: {type: 'ephemeral'}})\<close>
\<close>

fun mark_last :: "MessageContent list \<Rightarrow> ApiBlock list" where
  "mark_last [] = []"
| "mark_last [c] = [(plain_block c)\<lparr>cache_control := True\<rparr>]"
| "mark_last (c # d # cs) = plain_block c # mark_last (d # cs)"

text \<open>The two branches of the \<open>currentMessages.map\<close> at the head of the loop.\<close>

definition pass_through :: "Message \<Rightarrow> ApiMessage" where
  "pass_through m =
     \<lparr>api_role = role m,
      api_content = (case content m of Plain s \<Rightarrow> ApiPlain s
                                     | Blocks bs \<Rightarrow> ApiBlocks (map plain_block bs)),
      api_toolInput = toolInput m\<rparr>"

definition cache_mark :: "Message \<Rightarrow> ApiMessage" where
  "cache_mark m =
     \<lparr>api_role = role m,
      api_content = (case content m of
                       Plain s \<Rightarrow> ApiBlocks [(plain_block (Text s))\<lparr>cache_control := True\<rparr>]
                     | Blocks bs \<Rightarrow> ApiBlocks (mark_last bs)),
      api_toolInput = toolInput m\<rparr>"

text \<open>
  \<open>index < array.length - 3\<close> is a comparison of JavaScript numbers: with fewer than
  three messages the right-hand side is negative and no index is below it. On naturals
  that is \<open>index + 3 < length\<close>.
\<close>

definition cachedApiMessages :: "Message list \<Rightarrow> ApiMessage list" where
  "cachedApiMessages currentMessages =
     map (\<lambda>(index, m). if index + 3 < length currentMessages then pass_through m
                        else cache_mark m)
         (enumerate 0 currentMessages)"

text \<open>Positions of the blocks of a payload message that carry \<open>cache_control\<close>.\<close>

definition marked_positions :: "ApiMessage \<Rightarrow> nat list" where
  "marked_positions am =
     (case api_content am of
        ApiPlain s \<Rightarrow> []
      | ApiBlocks bs \<Rightarrow> filter (\<lambda>i. cache_control (bs ! i)) [0 ..< length bs])"

definition marked_total :: "ApiMessage list \<Rightarrow> nat" where
  "marked_total ams = sum_list (map (\<lambda>am. length (marked_positions am)) ams)"

definition body_length :: "MessageBody \<Rightarrow> nat" where
  "body_length b = (case b of Plain s \<Rightarrow> 1 | Blocks bs \<Rightarrow> length bs)"

section \<open>Elision of old tool results\<close>

text \<open>\<open>Array.isArray(msg.content)\<close> then \<open>flatMap(msg => msg.content)\<close>\<close>

definition array_content :: "Message \<Rightarrow> MessageContent list" where
  "array_content m = (case content m of Blocks bs \<Rightarrow> bs | Plain s \<Rightarrow> [])"

fun tool_result_ids :: "MessageContent list \<Rightarrow> string list" where
  "tool_result_ids [] = []"
| "tool_result_ids (ToolResult i c e # cs) = i # tool_result_ids cs"
| "tool_result_ids (c # cs) = tool_result_ids cs"

text \<open>\<open>.pop()\<close> of an empty array is \<open>undefined\<close>: \<open>None\<close>.\<close>

definition newestToolResultId :: "Message list \<Rightarrow> string option" where
  "newestToolResultId currentMessages =
     (case tool_result_ids (concat (map array_content currentMessages)) of
        [] \<Rightarrow> None
      | i # ids \<Rightarrow> Some (last (i # ids)))"

text \<open>\<open>{...b, content: s}\<close>\<close>

definition spread_content :: "ApiBlock \<Rightarrow> string \<Rightarrow> ApiBlock" where
  "spread_content b s =
     (case block b of
        ToolResult i c e \<Rightarrow> b\<lparr>block := ToolResult i s e\<rparr>
      | _ \<Rightarrow> b\<lparr>extra_content := Some s\<rparr>)"

text \<open>
  The function mapped over \<open>cachedApiMessages\<close> to build \<open>apiMessagesToSend\<close>.
  \<open>find\<close> returning a block means the array is not empty, so \<open>msg.content[0]\<close>
  exists where it is read.
\<close>

definition elide_message :: "string option \<Rightarrow> string set \<Rightarrow> ApiMessage \<Rightarrow> ApiMessage" where
  "elide_message newest saved msg =
     (case api_content msg of
        ApiPlain s \<Rightarrow> msg
      | ApiBlocks bs \<Rightarrow>
          (case find (\<lambda>c. is_tool_result (block c)) bs of
             None \<Rightarrow> msg
           | Some toolResult \<Rightarrow>
               (case block toolResult of
                  ToolResult toolUseId c e \<Rightarrow>
                    if Some toolUseId = newest \<or> toolUseId \<in> saved then msg
                    else msg\<lparr>api_content := ApiBlocks [spread_content (hd bs) ''elided'']\<rparr>
                | _ \<Rightarrow> msg)))"

definition apiMessagesToSend :: "bool \<Rightarrow> string set \<Rightarrow> Message list \<Rightarrow> ApiMessage list" where
  "apiMessagesToSend elideToolResults saved currentMessages =
     (if \<not> elideToolResults then cachedApiMessages currentMessages
      else map (elide_message (newestToolResultId currentMessages) saved)
               (cachedApiMessages currentMessages))"

text \<open>The (tool_use_id, content) pairs of the tool results a payload carries.\<close>

fun sent_tool_results :: "ApiBlock list \<Rightarrow> (string \<times> string) list" where
  "sent_tool_results [] = []"
| "sent_tool_results (b # bs) =
     (case block b of ToolResult i c e \<Rightarrow> (i, c) # sent_tool_results bs
                    | _ \<Rightarrow> sent_tool_results bs)"

definition api_blocks :: "ApiMessage \<Rightarrow> ApiBlock list" where
  "api_blocks am = (case api_content am of ApiBlocks bs \<Rightarrow> bs | ApiPlain s \<Rightarrow> [])"

definition payload_tool_results :: "ApiMessage list \<Rightarrow> (string \<times> string) list" where
  "payload_tool_results ams = concat (map (\<lambda>am. sent_tool_results (api_blocks am)) ams)"

fun stored_tool_results :: "MessageContent list \<Rightarrow> (string \<times> string) list" where
  "stored_tool_results [] = []"
| "stored_tool_results (ToolResult i c e # cs) = (i, c) # stored_tool_results cs"
| "stored_tool_results (c # cs) = stored_tool_results cs"

text \<open>The most recent ToolResult of the whole history, with its content.\<close>

definition newestToolResult :: "Message list \<Rightarrow> (string \<times> string) option" where
  "newestToolResult currentMessages =
     (case stored_tool_results (concat (map array_content currentMessages)) of
        [] \<Rightarrow> None
      | r # rs \<Rightarrow> Some (last (r # rs)))"

definition single_tool_result :: "Message \<Rightarrow> bool" where
  "single_tool_result m \<longleftrightarrow> length (tool_result_ids (array_content m)) \<le> 1"

section \<open>Strings\<close>

text \<open>
  A \<open>char\<close> stands for a UTF-16 code unit below 256; text with code units beyond
  that is outside the model. Of these code units \<open>String.prototype.trim\<close> removes
  the white space and line terminators of the language: tab, line feed, vertical tab,
  form feed, carriage return, space and no-break space (U+00A0).
\<close>

definition is_space :: "char \<Rightarrow> bool" where
  "is_space c \<longleftrightarrow>
     c \<in> set [CHR 0x09, CHR 0x0A, CHR 0x0B, CHR 0x0C, CHR 0x0D, CHR 0x20, CHR 0xA0]"

definition trim :: "string \<Rightarrow> string" where
  "trim s = rev (dropWhile is_space (rev (dropWhile is_space s)))"

text \<open>
  \<open>s.split(sep)\<close> for a separator that is not empty (the orchestrator splits on
  \<open>'\n'\<close> and on \<open>': '\<close>): the pieces between the occurrences of \<open>sep\<close>, found from the
  left without overlap; at least one piece, the whole string when \<open>sep\<close> does not occur.
  \<open>acc\<close> is the piece being read.
\<close>

fun split_from :: "string \<Rightarrow> string \<Rightarrow> string \<Rightarrow> string list" where
  "split_from sep acc [] = [acc]"
| "split_from sep acc (c # cs) =
     (if take (length sep) (c # cs) = sep
      then acc # split_from sep [] (drop (length sep - 1) cs)
      else split_from sep (acc @ [c]) cs)"

definition split :: "string \<Rightarrow> string \<Rightarrow> string list" where
  "split sep s = split_from sep [] s"

text \<open>\<open>s.replace(pat, rep)\<close> with a string pattern: the first occurrence only.\<close>

fun replace :: "string \<Rightarrow> string \<Rightarrow> string \<Rightarrow> string" where
  "replace pat rep [] = (if pat = [] then rep else [])"
| "replace pat rep (c # cs) =
     (if take (length pat) (c # cs) = pat then rep @ drop (length pat) (c # cs)
      else c # replace pat rep cs)"

text \<open>\<open>s.replace(/["']/g, '')\<close>\<close>

definition strip_quotes :: "string \<Rightarrow> string" where
  "strip_quotes s = filter (\<lambda>c. c \<noteq> CHR 0x22 \<and> c \<noteq> CHR 0x27) s"

definition suggestedTitle :: "string \<Rightarrow> string" where
  "suggestedTitle t =
     trim (replace ''Title'' [] (replace ''title'' [] (replace ''Title:'' []
       (replace ''title:'' [] (strip_quotes t)))))"

section \<open>Parsing the judge's verdict lines\<close>

text \<open>
  What a call can throw: a \<open>TypeError\<close> from reading the named property of
  \<open>undefined\<close>, another \<open>Error\<close> with its message, or a value that is not an
  \<open>Error\<close>.
\<close>

datatype Thrown = TypeError string | JsError string | NonError

text \<open>The \<open>message\<close> of such a TypeError, in V8's wording.\<close>

definition type_error_message :: "string \<Rightarrow> string" where
  "type_error_message p =
     ''Cannot read properties of undefined (reading '' @ [CHR 0x27] @ p @ [CHR 0x27] @ '')''"

text \<open>
  One pass of \<open>for (const line of lines)\<close>. \<open>const [key, value] = line.split(': ')\<close>
  takes the first two pieces; with a single piece \<open>value\<close> is \<open>undefined\<close> and
  \<open>value.trim()\<close> throws.
\<close>

definition parse_line :: "string set \<Rightarrow> string \<Rightarrow> Thrown + string set" where
  "parse_line savedToolResults line =
     (case split '': '' line of
        key # value # rest \<Rightarrow>
          if trim value = ''Yes'' then Inr (insert key savedToolResults)
          else if trim value = ''No'' then Inr (savedToolResults - {key})
          else Inr savedToolResults
      | _ \<Rightarrow> Inl (TypeError ''trim''))"

text \<open>
  The \<open>for\<close> loop over the lines. \<open>savedToolResults\<close> is one Set updated in place:
  when a line throws, the Set holds what the lines before it have made of it, and the
  exception carries on; \<open>Inl\<close> gives both.
\<close>

fun parse_lines :: "string set \<Rightarrow> string list \<Rightarrow> Thrown \<times> string set + string set" where
  "parse_lines savedToolResults [] = Inr savedToolResults"
| "parse_lines savedToolResults (line # lines) =
     (case parse_line savedToolResults line of
        Inl e \<Rightarrow> Inl (e, savedToolResults)
      | Inr saved \<Rightarrow> parse_lines saved lines)"

definition parse_verdicts :: "string set \<Rightarrow> string \<Rightarrow> Thrown \<times> string set + string set" where
  "parse_verdicts savedToolResults reply = parse_lines savedToolResults (split [CHR 0x0A] reply)"

text \<open>
  The verdict a line carries, read the way the loop reads it: the id is the piece before
  the first \<open>': '\<close>, the verdict the trimmed piece after it.
\<close>

definition verdict_of :: "string \<Rightarrow> (string \<times> bool) option" where
  "verdict_of line =
     (case split '': '' line of
        key # value # rest \<Rightarrow>
          if trim value = ''Yes'' then Some (key, True)
          else if trim value = ''No'' then Some (key, False)
          else None
      | _ \<Rightarrow> None)"

text \<open>The last verdict the lines give for an id, if any.\<close>

fun last_verdict :: "string list \<Rightarrow> string \<Rightarrow> bool option" where
  "last_verdict [] k = None"
| "last_verdict (line # lines) k =
     (case last_verdict lines k of
        Some v \<Rightarrow> Some v
      | None \<Rightarrow> (case verdict_of line of
                   Some (key, v) \<Rightarrow> if key = k then Some v else None
                 | None \<Rightarrow> None))"

definition has_separator :: "string \<Rightarrow> bool" where
  "has_separator line \<longleftrightarrow> 2 \<le> length (split '': '' line)"

text \<open>The lines the loop gets through: those before the first line it throws on.\<close>

definition parsed_lines :: "string list \<Rightarrow> string list" where
  "parsed_lines lines = takeWhile has_separator lines"

text \<open>
  The saved set as the claim words it: the ids whose last parsed verdict is Yes,
  together with the ids saved before the reply for which its lines give no verdict
  (none at the first judge call of a turn, where the set starts empty).
\<close>

definition last_verdict_yes :: "string set \<Rightarrow> string list \<Rightarrow> string set" where
  "last_verdict_yes saved lines =
     {k. last_verdict (parsed_lines lines) k = Some True}
       \<union> {k \<in> saved. last_verdict (parsed_lines lines) k = None}"

section \<open>Tool servers\<close>

record Tool =
  tool_name :: string
  description :: string
  input_schema :: json

text \<open>A server of the MCP context; \<open>tools\<close> may be \<open>undefined\<close>.\<close>

record McpServer =
  server_id :: string
  tools :: "Tool list option"

record ApiTool =
  api_tool :: Tool
  tool_cache_control :: bool

text \<open>\<open>s.tools || []\<close>\<close>

definition tools_or_empty :: "McpServer \<Rightarrow> Tool list" where
  "tools_or_empty s = (case tools s of None \<Rightarrow> [] | Some ts \<Rightarrow> ts)"

text \<open>
  The \<open>toolMap\<close> of getUniqueTools: a tool is set only when its name is not yet a
  key, and a Map lists its values in insertion order.
\<close>

fun unique_by_name :: "string list \<Rightarrow> Tool list \<Rightarrow> Tool list" where
  "unique_by_name seen [] = []"
| "unique_by_name seen (t # ts) =
     (if tool_name t \<in> set seen then unique_by_name seen ts
      else t # unique_by_name (tool_name t # seen) ts)"

fun mark_last_tool :: "Tool list \<Rightarrow> ApiTool list" where
  "mark_last_tool [] = []"
| "mark_last_tool [t] = [\<lparr>api_tool = t, tool_cache_control = True\<rparr>]"
| "mark_last_tool (t # u # ts) = \<lparr>api_tool = t, tool_cache_control = False\<rparr> # mark_last_tool (u # ts)"

text \<open>
  \<open>mcpServers\<close> are the servers configured in the project's settings, \<open>servers\<close>
  all the servers of the MCP context.
\<close>

definition getUniqueTools :: "bool \<Rightarrow> McpServer list \<Rightarrow> McpServer list \<Rightarrow> ApiTool list" where
  "getUniqueTools should_cache mcpServers servers =
     (if mcpServers = [] then []
      else let ts = unique_by_name []
                      (concat (map tools_or_empty
                         (filter (\<lambda>server. \<exists>configuredServer \<in> set mcpServers.
                                     server_id configuredServer = server_id server) servers)))
           in if \<not> should_cache then map (\<lambda>t. \<lparr>api_tool = t, tool_cache_control = False\<rparr>) ts
              else mark_last_tool ts)"

text \<open>
  \<open>servers.find(s => s.tools?.some(t => t.name === toolUseContent.name))\<close>, the
  server handleSendMessage dispatches a tool call to.
\<close>

definition advertises :: "string \<Rightarrow> McpServer \<Rightarrow> bool" where
  "advertises n s = (case tools s of None \<Rightarrow> False | Some ts \<Rightarrow> \<exists>t \<in> set ts. tool_name t = n)"

definition serverWithTool :: "McpServer list \<Rightarrow> string \<Rightarrow> McpServer option" where
  "serverWithTool servers n = find (advertises n) servers"

text \<open>
  The dispatch as the spec words it: the first server, among the project's configured
  servers, whose tool list contains the name. (That is the server whose tool
  getUniqueTools offers to the model under that name.)
\<close>

definition configuredServerWithTool :: "McpServer list \<Rightarrow> McpServer list \<Rightarrow> string \<Rightarrow> McpServer option" where
  "configuredServerWithTool mcpServers servers n =
     find (advertises n)
       (filter (\<lambda>server. \<exists>configuredServer \<in> set mcpServers.
                   server_id configuredServer = server_id server) servers)"

section \<open>The orchestrator: handleSendMessage\<close>

record ProjectSettings =
  apiKey :: "string option"
  mcpServers :: "McpServer list"
  elideToolResults :: bool

text \<open>
  What the world outside answers during one pass of the \<open>while (true)\<close> loop, read
  only as far as the pass gets: the judge's reply, the streamed text deltas and the
  final message (or the rejection of the stream), the reply to the title call, the
  result of \<open>executeTool\<close>, and the call, if any, during which the user presses the
  cancel button. The provider's SDK and the MCP context (\<open>servers\<close>,
  \<open>executeTool\<close>) are outside the orchestrator: their answers are given by the world,
  the server list is a parameter.
\<close>

datatype 'a Reply = Returns 'a | Rejects Thrown

datatype AwaitPoint = AtJudge | AtStream | AtTitle | AtTool

record Step =
  judge_reply :: "MessageContent list Reply"
  stream_text :: "string list"
  final_message :: "MessageContent list Reply"
  title_reply :: "MessageContent list Reply"
  tool_reply :: "string Reply"
  cancel_at :: "AwaitPoint option"

text \<open>The calls to the outside, in the order they are started.\<close>

datatype Call =
    JudgeCall
  | StreamCall "ApiMessage list" "ApiTool list option"
  | TitleCall
  | ToolCall string string json

text \<open>
  The state a turn reads and writes: the locals \<open>currentMessages\<close> and
  \<open>savedToolResults\<close>, \<open>shouldCancelRef.current\<close>, the messages and the name of the
  active conversation in the project store, the name of that conversation in the
  \<open>activeProject\<close> the closure of the turn holds (the project as rendered when the
  turn started), the \<open>isLoading\<close> and \<open>error\<close> states of the component, and the
  calls started so far.
\<close>

record State =
  currentMessages :: "Message list"
  savedToolResults :: "string set"
  shouldCancel :: bool
  stored :: "Message list"
  conversation_name :: string
  rendered_name :: string
  isLoading :: bool
  error :: "string option"
  calls :: "Call list"

definition cancelCurrentCall :: "State \<Rightarrow> State" where
  "cancelCurrentCall s = s\<lparr>shouldCancel := True, isLoading := False, error := Some ''Operation cancelled''\<rparr>"

text \<open>An \<open>await\<close> at point \<open>p\<close>: the call is started, and the user may cancel meanwhile.\<close>

definition await :: "AwaitPoint \<Rightarrow> Call \<Rightarrow> Step \<Rightarrow> State \<Rightarrow> State" where
  "await p c st s =
     (let s' = s\<lparr>calls := calls s @ [c]\<rparr>
      in if cancel_at st = Some p then cancelCurrentCall s' else s')"

text \<open>
  Modelled from the spec: \<open>updateProjectSettings\<close> and \<open>renameConversation\<close> of
  the project context are not among the sources. As the spec's Conversation Store has
  them, the first replaces the stored value wholesale and the second sets the name of the
  conversation. \<open>updateConversationMessages\<close> maps over
  \<open>activeProject.conversations\<close>, the conversations of the closure's project, and
  writes back \<open>{...conv, messages: newMessages}\<close> for the active one: the new
  messages under the name the conversation had when the turn started, so that a rename
  made during the turn is undone by the next write of the messages.
\<close>

definition updateConversationMessages :: "Message list \<Rightarrow> State \<Rightarrow> State" where
  "updateConversationMessages newMessages s =
     s\<lparr>stored := newMessages, conversation_name := rendered_name s\<rparr>"

definition renameConversation :: "string \<Rightarrow> State \<Rightarrow> State" where
  "renameConversation newName s = s\<lparr>conversation_name := newName\<rparr>"

datatype IterResult = Continue State | Break State | Throw Thrown State

text \<open>
  \<open>(cachedApiMessages[cachedApiMessages.length - 1].content as MessageContent[])[0].type
  === 'tool_result'\<close>: reading \<open>content\<close> of a missing last message, or \<open>type\<close> of
  a missing first block, throws.
\<close>

definition last_starts_with_tool_result :: "ApiMessage list \<Rightarrow> Thrown + bool" where
  "last_starts_with_tool_result ams =
     (case ams of
        [] \<Rightarrow> Inl (TypeError ''content'')
      | a # as \<Rightarrow>
          (case api_content (last (a # as)) of
             ApiPlain s \<Rightarrow> Inr False
           | ApiBlocks [] \<Rightarrow> Inl (TypeError ''type'')
           | ApiBlocks (b # bs) \<Rightarrow> Inr (is_tool_result (block b))))"

text \<open>
  The judge call and the parse of its reply. The transcript sent to the judge is not
  modelled; building it cannot throw. The Set is updated in place line by line, so the
  state holds the updated set also when a line throws.
\<close>

definition judge_phase :: "ProjectSettings \<Rightarrow> Step \<Rightarrow> State \<Rightarrow> Thrown \<times> State + State" where
  "judge_phase settings st s =
     (if \<not> elideToolResults settings then Inr s
      else case last_starts_with_tool_result (cachedApiMessages (currentMessages s)) of
             Inl e \<Rightarrow> Inl (e, s)
           | Inr False \<Rightarrow> Inr s
           | Inr True \<Rightarrow>
               (let s' = await AtJudge JudgeCall st s
                in case judge_reply st of
                     Rejects e \<Rightarrow> Inl (e, s')
                   | Returns [] \<Rightarrow> Inl (TypeError ''type'', s')
                   | Returns (Text t # cs) \<Rightarrow>
                       (case parse_verdicts (savedToolResults s') t of
                          Inl (e, saved) \<Rightarrow> Inl (e, s'\<lparr>savedToolResults := saved\<rparr>)
                        | Inr saved \<Rightarrow> Inr (s'\<lparr>savedToolResults := saved\<rparr>))
                   | Returns (c # cs) \<Rightarrow> Inr s'))"

text \<open>
  The \<open>'text'\<close> handler of the stream: each delta grows the text of
  \<open>currentStreamMessage\<close> and writes \<open>[...currentMessages, currentStreamMessage]\<close> to
  the store. \<open>acc\<close> is \<open>textContent.text\<close> so far.
\<close>

definition currentStreamMessage :: "string \<Rightarrow> Message" where
  "currentStreamMessage t = \<lparr>role = assistant, content = Blocks [Text t], toolInput = None\<rparr>"

fun on_text :: "string \<Rightarrow> string list \<Rightarrow> State \<Rightarrow> State" where
  "on_text acc [] s = s"
| "on_text acc (d # ds) s =
     on_text (acc @ d) ds
       (updateConversationMessages (currentMessages s @ [currentStreamMessage (acc @ d)]) s)"

text \<open>\<open>...(tools.length > 0 && {tools: toolsCached})\<close>\<close>

definition offered_tools :: "ProjectSettings \<Rightarrow> McpServer list \<Rightarrow> ApiTool list option" where
  "offered_tools settings servers =
     (let toolsCached = getUniqueTools True (mcpServers settings) servers;
          ts = getUniqueTools False (mcpServers settings) servers
      in if ts \<noteq> [] then Some toolsCached else None)"

text \<open>
  The stream request with the payload built from \<open>currentMessages\<close>, its text deltas,
  and \<open>await stream.finalMessage()\<close>.
\<close>

definition stream_phase ::
  "ProjectSettings \<Rightarrow> McpServer list \<Rightarrow> Step \<Rightarrow> State \<Rightarrow> Thrown \<times> State + State \<times> MessageContent list" where
  "stream_phase settings servers st s =
     (let payload = apiMessagesToSend (elideToolResults settings) (savedToolResults s) (currentMessages s);
          s' = on_text [] (stream_text st)
                 (await AtStream (StreamCall payload (offered_tools settings servers)) st s)
      in case final_message st of
           Rejects e \<Rightarrow> Inl (e, s')
         | Returns finalResponse \<Rightarrow> Inr (s', finalResponse))"

text \<open>
  The title call, made when \<open>cachedApiMessages.length === 2\<close> (the active conversation
  exists whenever the component shows its input).
\<close>

definition title_phase :: "Step \<Rightarrow> State \<Rightarrow> Thrown \<times> State + State" where
  "title_phase st s =
     (if length (cachedApiMessages (currentMessages s)) = 2
      then (let s' = await AtTitle TitleCall st s
            in case title_reply st of
                 Rejects e \<Rightarrow> Inl (e, s')
               | Returns [] \<Rightarrow> Inl (TypeError ''type'', s')
               | Returns (Text t # cs) \<Rightarrow>
                   Inr (if suggestedTitle t \<noteq> [] then renameConversation (suggestedTitle t) s' else s')
               | Returns (c # cs) \<Rightarrow> Inr s')
      else Inr s)"

text \<open>\<open>currentMessages.push(m); updateConversationMessages(..., currentMessages)\<close>\<close>

definition push_message :: "Message \<Rightarrow> State \<Rightarrow> State" where
  "push_message m s =
     updateConversationMessages (currentMessages s @ [m]) (s\<lparr>currentMessages := currentMessages s @ [m]\<rparr>)"

definition toolResultMessage :: "string \<Rightarrow> string \<Rightarrow> Message" where
  "toolResultMessage i result = \<lparr>role = user, content = Blocks [ToolResult i result False], toolInput = None\<rparr>"

text \<open>\<open>error instanceof Error ? error.message : 'Unknown error'\<close>\<close>

definition tool_error_text :: "Thrown \<Rightarrow> string" where
  "tool_error_text e =
     (case e of
        TypeError p \<Rightarrow> type_error_message p
      | JsError m \<Rightarrow> m
      | NonError \<Rightarrow> ''Unknown error'')"

definition errorMessage :: "string \<Rightarrow> Thrown \<Rightarrow> Message" where
  "errorMessage i e =
     \<lparr>role = user, content = Blocks [ToolResult i (''Error: '' @ tool_error_text e) True], toolInput = None\<rparr>"

text \<open>
  The \<open>catch\<close> of the tool dispatch, followed by the test at the foot of the loop;
  \<open>toolUseContent\<close> is defined here, so only \<open>shouldCancelRef.current\<close> can break.
\<close>

definition tool_failed :: "string \<Rightarrow> Thrown \<Rightarrow> State \<Rightarrow> IterResult" where
  "tool_failed i e s =
     (let s' = push_message (errorMessage i e) s
      in if shouldCancel s' then Break s' else Continue s')"

text \<open>
  The dispatch of the first \<open>tool_use\<close> block of the final response. After a tool
  that returns, \<open>continue\<close> starts the next pass at once.
\<close>

definition tool_phase :: "McpServer list \<Rightarrow> Step \<Rightarrow> MessageContent list \<Rightarrow> State \<Rightarrow> IterResult" where
  "tool_phase servers st finalResponse s =
     (case find is_tool_use finalResponse of
        Some (ToolUse i n inp) \<Rightarrow>
          (case serverWithTool servers n of
             None \<Rightarrow> tool_failed i (JsError (''No server found for tool '' @ n)) s
           | Some sv \<Rightarrow>
               (let s' = await AtTool (ToolCall (server_id sv) n inp) st s
                in case tool_reply st of
                     Returns result \<Rightarrow> Continue (push_message (toolResultMessage i result) s')
                   | Rejects e \<Rightarrow> tool_failed i e s'))
      | _ \<Rightarrow> Break s)"

definition iteration :: "ProjectSettings \<Rightarrow> McpServer list \<Rightarrow> Step \<Rightarrow> State \<Rightarrow> IterResult" where
  "iteration settings servers st s =
     (case judge_phase settings st s of
        Inl (e, s1) \<Rightarrow> Throw e s1
      | Inr s1 \<Rightarrow>
          (case stream_phase settings servers st s1 of
             Inl (e, s2) \<Rightarrow> Throw e s2
           | Inr (s2, finalResponse) \<Rightarrow>
               (case title_phase st s2 of
                  Inl (e, s3) \<Rightarrow> Throw e s3
                | Inr s3 \<Rightarrow> tool_phase servers st finalResponse s3)))"

text \<open>
  The \<open>while (true)\<close> loop. The world is a function from the number of the pass to
  its answers; the loop can run for ever (a provider that always asks for a tool), so it
  takes fuel, and \<open>None\<close> is a loop still running when the fuel is spent.
\<close>

datatype LoopEnd = Finished State | Failed Thrown State

fun loop :: "nat \<Rightarrow> ProjectSettings \<Rightarrow> McpServer list \<Rightarrow> (nat \<Rightarrow> Step) \<Rightarrow> nat \<Rightarrow> State \<Rightarrow> LoopEnd option" where
  "loop 0 settings servers world k s = None"
| "loop (Suc fuel) settings servers world k s =
     (case iteration settings servers (world k) s of
        Continue s' \<Rightarrow> loop fuel settings servers world (Suc k) s'
      | Break s' \<Rightarrow> Some (Finished s')
      | Throw e s' \<Rightarrow> Some (Failed e s'))"

text \<open>\<open>error instanceof Error ? error.message : 'An error occurred'\<close>\<close>

definition error_text :: "Thrown \<Rightarrow> string" where
  "error_text e =
     (case e of
        TypeError p \<Rightarrow> type_error_message p
      | JsError m \<Rightarrow> m
      | NonError \<Rightarrow> ''An error occurred'')"

definition userMessage :: "string \<Rightarrow> Message" where
  "userMessage inputMessage = \<lparr>role = user, content = Blocks [Text inputMessage], toolInput = None\<rparr>"

text \<open>The \<open>catch\<close> and the \<open>finally\<close> around the loop.\<close>

definition settle :: "LoopEnd \<Rightarrow> State" where
  "settle r =
     (case r of
        Finished s \<Rightarrow> s\<lparr>shouldCancel := False, isLoading := False\<rparr>
      | Failed e s \<Rightarrow>
          (if \<not> shouldCancel s then s\<lparr>error := Some (error_text e)\<rparr> else s)
            \<lparr>shouldCancel := False, isLoading := False\<rparr>)"

text \<open>
  The state in which the loop starts, once the input and the API key are accepted. The
  closure that runs is the one of the latest render, so its project holds the
  conversation under its current name.
\<close>

definition start_turn :: "string \<Rightarrow> State \<Rightarrow> State" where
  "start_turn inputMessage s =
     updateConversationMessages (stored s @ [userMessage inputMessage])
       (s\<lparr>shouldCancel := False, isLoading := True, error := None,
          currentMessages := stored s @ [userMessage inputMessage],
          savedToolResults := {},
          rendered_name := conversation_name s\<rparr>)"

text \<open>
  handleSendMessage; the project and the conversation are the active ones (the
  component shows no input without them). \<open>None\<close>: the loop is still running when the
  fuel is spent.
\<close>

definition handleSendMessage ::
  "nat \<Rightarrow> ProjectSettings \<Rightarrow> McpServer list \<Rightarrow> (nat \<Rightarrow> Step) \<Rightarrow> string \<Rightarrow> State \<Rightarrow> State option" where
  "handleSendMessage fuel settings servers world inputMessage s =
     (if trim inputMessage = [] then Some (s\<lparr>shouldCancel := False\<rparr>)
      else if apiKey settings = None \<or> apiKey settings = Some []
      then Some (s\<lparr>shouldCancel := False, error := Some ''Please set your API key in settings''\<rparr>)
      else map_option settle (loop fuel settings servers world 0 (start_turn inputMessage s)))"

text \<open>The stream requests among the calls, in order.\<close>

fun stream_calls :: "Call list \<Rightarrow> ApiMessage list list" where
  "stream_calls [] = []"
| "stream_calls (StreamCall payload ts # cs) = payload # stream_calls cs"
| "stream_calls (c # cs) = stream_calls cs"

text \<open>A message as the loop appends it: role user, one \<open>tool_result\<close> block.\<close>

definition is_tool_result_message :: "Message \<Rightarrow> bool" where
  "is_tool_result_message m \<longleftrightarrow>
     (case content m of
        Blocks [ToolResult i c e] \<Rightarrow> role m = user
      | _ \<Rightarrow> False)"

fun end_state :: "LoopEnd \<Rightarrow> State" where
  "end_state (Finished s) = s"
| "end_state (Failed e s) = s"

fun result_state :: "IterResult \<Rightarrow> State" where
  "result_state (Continue s) = s"
| "result_state (Break s) = s"
| "result_state (Throw e s) = s"

text \<open>
  The working list of a turn that started from \<open>base\<close> (the history and the submitted
  user message): \<open>base\<close> followed by tool-result messages only.
\<close>

definition turn_shape :: "Message list \<Rightarrow> Message list \<Rightarrow> bool" where
  "turn_shape base cm \<longleftrightarrow>
     take (length base) cm = base \<and> list_all is_tool_result_message (drop (length base) cm)"

text \<open>A request none of whose messages after the first \<open>n\<close> has role assistant.\<close>

definition omits_assistant :: "nat \<Rightarrow> ApiMessage list \<Rightarrow> bool" where
  "omits_assistant n payload \<longleftrightarrow> list_all (\<lambda>m. api_role m = user) (drop n payload)"

text \<open>The ids of the \<open>tool_use\<close> blocks of a list of messages.\<close>

fun tool_use_ids :: "MessageContent list \<Rightarrow> string list" where
  "tool_use_ids [] = []"
| "tool_use_ids (ToolUse i n inp # cs) = i # tool_use_ids cs"
| "tool_use_ids (c # cs) = tool_use_ids cs"

definition stored_blocks :: "State \<Rightarrow> MessageContent list" where
  "stored_blocks s = concat (map array_content (stored s))"

text \<open>The tool dispatches (server id, tool name) and the number of title calls among the calls.\<close>

fun tool_calls :: "Call list \<Rightarrow> (string \<times> string) list" where
  "tool_calls [] = []"
| "tool_calls (ToolCall sid n inp # cs) = (sid, n) # tool_calls cs"
| "tool_calls (c # cs) = tool_calls cs"

definition title_calls :: "Call list \<Rightarrow> nat" where
  "title_calls cs = length (filter (\<lambda>c. c = TitleCall) cs)"

text \<open>What a pass of the world answers: a response with or without a \<open>tool_use\<close> block.\<close>

definition asks_for_tool :: "Step \<Rightarrow> bool" where
  "asks_for_tool st =
     (case final_message st of Returns c \<Rightarrow> find is_tool_use c \<noteq> None | Rejects e \<Rightarrow> False)"

definition answers_without_tool :: "Step \<Rightarrow> bool" where
  "answers_without_tool st =
     (case final_message st of Returns c \<Rightarrow> find is_tool_use c = None | Rejects e \<Rightarrow> False)"

definition title_succeeds :: "Step \<Rightarrow> bool" where
  "title_succeeds st = (case title_reply st of Returns (c # cs) \<Rightarrow> True | _ \<Rightarrow> False)"

text \<open>One verdict line applied to the saved set.\<close>

definition apply_verdict :: "string set \<Rightarrow> string \<Rightarrow> string set" where
  "apply_verdict saved line =
     (case verdict_of line of
        None \<Rightarrow> saved
      | Some (key, v) \<Rightarrow> if v then insert key saved else saved - {key})"

section \<open>Concrete inputs\<close>

definition idle :: State where
  "idle = \<lparr>currentMessages = [], savedToolResults = {}, shouldCancel = False, stored = [],
           conversation_name = ''New Chat'', rendered_name = ''New Chat'', isLoading = False,
           error = None, calls = []\<rparr>"

definition search_tool :: Tool where
  "search_tool = \<lparr>tool_name = ''search'', description = ''web search'', input_schema = ''{}''\<rparr>"

definition search_server :: McpServer where
  "search_server = \<lparr>server_id = ''a'', tools = Some [search_tool]\<rparr>"

definition other_server :: McpServer where
  "other_server = \<lparr>server_id = ''x'', tools = Some [search_tool]\<rparr>"

definition settings0 :: ProjectSettings where
  "settings0 = \<lparr>apiKey = Some ''key'', mcpServers = [search_server], elideToolResults = False\<rparr>"

definition answer :: "string \<Rightarrow> Step" where
  "answer t =
     \<lparr>judge_reply = Returns [Text []], stream_text = [t], final_message = Returns [Text t],
      title_reply = Returns [Text ''Title: Weather Forecast''], tool_reply = Returns [],
      cancel_at = None\<rparr>"

definition ask_search :: Step where
  "ask_search =
     \<lparr>judge_reply = Returns [Text []], stream_text = [''Searching''],
      final_message = Returns [Text ''Searching'', ToolUse ''t1'' ''search'' ''{}''],
      title_reply = Returns [Text ''Title: Weather Forecast''], tool_reply = Returns ''42 results'',
      cancel_at = None\<rparr>"

text \<open>The provider asks for one search, then answers.\<close>

definition search_then_answer :: "nat \<Rightarrow> Step" where
  "search_then_answer k = (if k = 0 then ask_search else answer ''Done'')"

text \<open>The same, the user pressing cancel while the search runs.\<close>

definition cancel_during_search :: "nat \<Rightarrow> Step" where
  "cancel_during_search k = (if k = 0 then ask_search\<lparr>cancel_at := Some AtTool\<rparr> else answer ''Done'')"

text \<open>The same, the title call of the second pass being rejected.\<close>

definition title_rejected :: "nat \<Rightarrow> Step" where
  "title_rejected k =
     (if k = 0 then ask_search
      else ask_search\<lparr>title_reply := Rejects (JsError ''overloaded'')\<rparr>)"

text \<open>The same with elision on, the judge's reply ending in a line feed.\<close>

definition judge_trailing_newline :: "nat \<Rightarrow> Step" where
  "judge_trailing_newline k =
     (if k = 0 then ask_search
      else (answer ''Done'')\<lparr>judge_reply := Returns [Text (''t1: Yes'' @ [CHR 0x0A])]\<rparr>)"

text \<open>The provider answers at once.\<close>

definition just_answer :: "nat \<Rightarrow> Step" where
  "just_answer k = answer ''4''"

definition eliding :: ProjectSettings where
  "eliding = settings0\<lparr>elideToolResults := True\<rparr>"

text \<open>A conversation holding one user message, left by a turn that failed.\<close>

definition one_message_history :: State where
  "one_message_history = idle\<lparr>stored := [userMessage ''find it'']\<rparr>"

definition five_texts :: "Message list" where
  "five_texts =
     [\<lparr>role = user, content = Blocks [Text ''one''], toolInput = None\<rparr>,
      \<lparr>role = assistant, content = Blocks [Text ''two'', Text ''more''], toolInput = None\<rparr>,
      \<lparr>role = user, content = Plain ''three'', toolInput = None\<rparr>,
      \<lparr>role = assistant, content = Blocks [Text ''four'', Text ''more''], toolInput = None\<rparr>,
      \<lparr>role = user, content = Plain ''five'', toolInput = None\<rparr>]"

definition two_texts :: "Message list" where
  "two_texts =
     [\<lparr>role = user, content = Blocks [Text ''hi''], toolInput = None\<rparr>,
      \<lparr>role = assistant, content = Blocks [Text ''hello''], toolInput = None\<rparr>]"

definition two_results :: "Message list" where
  "two_results =
     [\<lparr>role = user, content = Blocks [Text ''look both up''], toolInput = None\<rparr>,
      \<lparr>role = user,
       content = Blocks [ToolResult ''a'' ''first'' False, ToolResult ''b'' ''second'' False],
       toolInput = None\<rparr>]"

definition one_result :: "Message list" where
  "one_result =
     [\<lparr>role = user, content = Blocks [Text ''look it up''], toolInput = None\<rparr>,
      \<lparr>role = user, content = Blocks [ToolResult ''a'' ''first'' False], toolInput = None\<rparr>]"





section \<open>The cache marks of the payload\<close>

lemma length_mark_last: "length (mark_last bs) = length bs"
  by (induction bs rule: mark_last.induct) simp_all

lemma cache_control_mark_last:
  "i < length bs \<Longrightarrow> cache_control (mark_last bs ! i) = (Suc i = length bs)"
proof (induction bs arbitrary: i rule: mark_last.induct)
  case 1
  then show ?case by simp
next
  case (2 c)
  then show ?case by simp
next
  case (3 c d cs)
  show ?case
  proof (cases i)
    case 0
    then show ?thesis by (simp add: plain_block_def)
  next
    case (Suc j)
    with 3 show ?thesis by simp
  qed
qed

lemma filter_last_index:
  "filter (\<lambda>i. Suc i = n) [0 ..< n] = (if n = 0 then [] else [n - 1])"
proof (cases n)
  case 0
  then show ?thesis by simp
next
  case (Suc k)
  have "filter (\<lambda>i. i = k) [0 ..< k] = []"
    by (simp add: filter_empty_conv)
  with Suc show ?thesis by simp
qed

lemma marked_positions_mark_last:
  "filter (\<lambda>i. cache_control (mark_last bs ! i)) [0 ..< length (mark_last bs)]
     = (if bs = [] then [] else [length bs - 1])"
proof -
  have "filter (\<lambda>i. cache_control (mark_last bs ! i)) [0 ..< length bs]
          = filter (\<lambda>i. Suc i = length bs) [0 ..< length bs]"
    by (rule filter_cong) (simp_all add: cache_control_mark_last)
  then show ?thesis
    by (simp add: length_mark_last filter_last_index)
qed

lemma marked_positions_pass_through: "marked_positions (pass_through m) = []"
  by (simp add: marked_positions_def pass_through_def plain_block_def filter_empty_conv
           split: MessageBody.splits)

lemma marked_positions_cache_mark:
  "marked_positions (cache_mark m) =
     (if body_length (content m) = 0 then [] else [body_length (content m) - 1])"
  by (simp add: marked_positions_def cache_mark_def body_length_def plain_block_def
                marked_positions_mark_last
           split: MessageBody.splits)

lemma length_cachedApiMessages: "length (cachedApiMessages ms) = length ms"
  by (simp add: cachedApiMessages_def)

lemma nth_cachedApiMessages:
  "i < length ms \<Longrightarrow>
   cachedApiMessages ms ! i =
     (if i + 3 < length ms then pass_through (ms ! i) else cache_mark (ms ! i))"
  by (simp add: cachedApiMessages_def nth_enumerate_eq)

text \<open>
  C2, as the spec states it: exactly one block of the whole payload is marked, the last
  block of the very last message. It fails on a history of two one-block messages: both
  blocks are marked, the first message's among them.
\<close>

theorem exactly_one_cache_mark_counterexample:
  "marked_total (cachedApiMessages two_texts) = 2 \<and>
   marked_positions (cachedApiMessages two_texts ! 0) = [0]"
  by (simp add: marked_total_def cachedApiMessages_def two_texts_def marked_positions_def
                cache_mark_def plain_block_def)

text \<open>
  C2, amended: in the payload built from any history, each of the last three messages
  (every message, when there are fewer than three) has exactly its last content block
  marked, a plain-text message of that window being sent as one marked text block and a
  message with no block having none marked; no block of an earlier message is marked.
\<close>

theorem cache_marks_in_trailing_window:
  assumes "i < length ms"
  shows "marked_positions (cachedApiMessages ms ! i) =
           (if i + 3 < length ms \<or> body_length (content (ms ! i)) = 0 then []
            else [body_length (content (ms ! i)) - 1])"
  using assms
  by (simp add: nth_cachedApiMessages marked_positions_pass_through marked_positions_cache_mark)

theorem cache_marks_in_trailing_window_witness:
  "1 < length five_texts \<and> marked_positions (cachedApiMessages five_texts ! 1) = [] \<and>
   3 < length five_texts \<and> marked_positions (cachedApiMessages five_texts ! 3) = [1] \<and>
   4 < length five_texts \<and> marked_positions (cachedApiMessages five_texts ! 4) = [0]"
proof -
  have len: "length five_texts = 5"
    by (simp add: five_texts_def)
  have h1: "1 < length five_texts" and h3: "3 < length five_texts" and h4: "4 < length five_texts"
    by (simp_all add: len)
  from cache_marks_in_trailing_window [OF h1] cache_marks_in_trailing_window [OF h3]
    cache_marks_in_trailing_window [OF h4] h1 h3 h4
  show ?thesis
    by (simp add: len) (simp add: five_texts_def body_length_def)
qed

section \<open>The judge's verdict lines\<close>

lemma parse_line_verdict:
  "parse_line saved line =
     (if has_separator line then Inr (apply_verdict saved line) else Inl (TypeError ''trim''))"
  by (simp add: parse_line_def verdict_of_def has_separator_def apply_verdict_def
           split: list.splits)

lemma last_verdict_step:
  "{k. last_verdict lines k = Some True}
       \<union> {k \<in> apply_verdict saved line. last_verdict lines k = None}
     = {k. last_verdict (line # lines) k = Some True}
         \<union> {k \<in> saved. last_verdict (line # lines) k = None}"
proof (rule set_eqI)
  fix k
  show "k \<in> {k. last_verdict lines k = Some True}
              \<union> {k \<in> apply_verdict saved line. last_verdict lines k = None}
        \<longleftrightarrow> k \<in> {k. last_verdict (line # lines) k = Some True}
              \<union> {k \<in> saved. last_verdict (line # lines) k = None}"
  proof (cases "last_verdict lines k")
    case (Some v)
    then show ?thesis by simp
  next
    case None
    show ?thesis
    proof (cases "verdict_of line")
      case no_verdict: None
      with None show ?thesis by (simp add: apply_verdict_def)
    next
      case (Some kv)
      with None show ?thesis
        by (cases kv) (auto simp: apply_verdict_def)
    qed
  qed
qed

text \<open>
  The fold over the lines, for every list of lines: it throws exactly when some line
  lacks the separator, and returning or throwing it leaves the set \<open>last_verdict_yes\<close>
  describes.
\<close>

lemma parse_lines_last_verdict:
  "parse_lines saved lines =
     (if list_all has_separator lines then Inr (last_verdict_yes saved lines)
      else Inl (TypeError ''trim'', last_verdict_yes saved lines))"
proof (induction lines arbitrary: saved)
  case Nil
  then show ?case by (simp add: last_verdict_yes_def parsed_lines_def)
next
  case (Cons line lines)
  show ?case
  proof (cases "has_separator line")
    case True
    then have "parse_lines saved (line # lines) = parse_lines (apply_verdict saved line) lines"
      by (simp add: parse_line_verdict)
    moreover have "last_verdict_yes (apply_verdict saved line) lines
                     = last_verdict_yes saved (line # lines)"
      using True by (simp add: last_verdict_yes_def parsed_lines_def last_verdict_step)
    ultimately show ?thesis
      using True Cons.IH [of "apply_verdict saved line"] by simp
  next
    case False
    then show ?thesis
      by (simp add: parse_line_verdict last_verdict_yes_def parsed_lines_def)
  qed
qed

text \<open>A line without \<open>': '\<close> anywhere among the lines makes the parse throw.\<close>

lemma parse_lines_throws:
  "\<not> list_all has_separator lines \<Longrightarrow>
   parse_lines saved lines = Inl (TypeError ''trim'', last_verdict_yes saved lines)"
  by (simp add: parse_lines_last_verdict)

text \<open>
  C3 says that a verdict line without a colon is skipped and the turn goes on. The code
  skips a line whose verdict is neither Yes nor No, but a line without \<open>': '\<close> makes
  \<open>value.trim()\<close> throw: on the reply \<open>"t1: Yes\n"\<close>, whose last line is empty, the
  parse throws, the turn ends with the TypeError as its error, and the request the judge
  call was preparing is never sent.
\<close>

theorem verdict_line_without_colon_aborts_turn:
  "parse_verdicts {} (''t1: Yes'' @ [CHR 0x0A]) = Inl (TypeError ''trim'', {''t1''}) \<and>
   map_option (\<lambda>s. (error s, length (stream_calls (calls s))))
     (handleSendMessage 2 eliding [search_server] judge_trailing_newline ''find it'' idle)
   = Some (Some (type_error_message ''trim''), 1)"
  by code_simp

section \<open>The newest tool result and elision\<close>

lemma map_block_mark_last: "map block (mark_last bs) = bs"
  by (induction bs rule: mark_last.induct) (simp_all add: plain_block_def)

lemma stored_tool_results_append:
  "stored_tool_results (xs @ ys) = stored_tool_results xs @ stored_tool_results ys"
  by (induction xs rule: stored_tool_results.induct) simp_all

lemma map_fst_stored_tool_results: "map fst (stored_tool_results bs) = tool_result_ids bs"
  by (induction bs rule: stored_tool_results.induct) simp_all

lemma sent_tool_results_block: "sent_tool_results bls = stored_tool_results (map block bls)"
  by (induction bls) (simp_all split: MessageContent.splits)

lemma set_stored_tool_results_concat:
  "set (stored_tool_results (concat bss)) = (\<Union>bs \<in> set bss. set (stored_tool_results bs))"
  by (induction bss) (simp_all add: stored_tool_results_append)

lemma newestToolResultId_fst:
  assumes "newestToolResult ms = Some r"
  shows "newestToolResultId ms = Some (fst r)"
proof -
  let ?bs = "concat (map array_content ms)"
  from assms have ne: "stored_tool_results ?bs \<noteq> []"
    and r: "r = last (stored_tool_results ?bs)"
    by (auto simp: newestToolResult_def split: list.splits)
  from ne have "tool_result_ids ?bs \<noteq> []"
    by (simp flip: map_fst_stored_tool_results)
  moreover have "last (tool_result_ids ?bs) = fst r"
    using ne r by (simp flip: map_fst_stored_tool_results add: last_map)
  ultimately show ?thesis
    by (auto simp: newestToolResultId_def split: list.splits)
qed

lemma newestToolResult_mem:
  assumes "newestToolResult ms = Some r"
  shows "\<exists>m \<in> set ms. r \<in> set (stored_tool_results (array_content m))"
proof -
  from assms have "r \<in> set (stored_tool_results (concat (map array_content ms)))"
    by (auto simp: newestToolResult_def split: list.splits)
  then show ?thesis
    by (auto simp: set_stored_tool_results_concat)
qed

lemma find_tool_result_block:
  "find (\<lambda>c. is_tool_result (block c)) bls = Some tr \<Longrightarrow>
   \<exists>i c e. block tr = ToolResult i c e \<and> hd (tool_result_ids (map block bls)) = i"
proof (induction bls)
  case Nil
  then show ?case by simp
next
  case (Cons a bls)
  then show ?case
    by (cases "block a") (auto split: if_splits)
qed

text \<open>A message whose only tool result carries the newest id is sent as it is.\<close>

lemma elide_message_keeps:
  assumes "tool_result_ids (map block (api_blocks msg)) = [i]"
  shows "elide_message (Some i) saved msg = msg"
proof (cases "api_content msg")
  case (ApiPlain s)
  then show ?thesis by (simp add: elide_message_def)
next
  case (ApiBlocks bs)
  show ?thesis
  proof (cases "find (\<lambda>c. is_tool_result (block c)) bs")
    case None
    with ApiBlocks show ?thesis by (simp add: elide_message_def)
  next
    case (Some tr)
    from find_tool_result_block [OF Some] assms ApiBlocks
    obtain c e where "block tr = ToolResult i c e"
      by (auto simp: api_blocks_def)
    with ApiBlocks Some show ?thesis by (simp add: elide_message_def)
  qed
qed

lemma map_block_pass_through: "map block (api_blocks (pass_through m)) = array_content m"
  by (simp add: api_blocks_def pass_through_def array_content_def comp_def plain_block_def
           split: MessageBody.splits)

lemma tool_results_cache_mark:
  "stored_tool_results (map block (api_blocks (cache_mark m)))
     = stored_tool_results (array_content m)"
  by (simp add: api_blocks_def cache_mark_def array_content_def map_block_mark_last
                plain_block_def
           split: MessageBody.splits)

lemma tool_results_cached:
  "j < length ms \<Longrightarrow>
   stored_tool_results (map block (api_blocks (cachedApiMessages ms ! j)))
     = stored_tool_results (array_content (ms ! j))"
  by (simp add: nth_cachedApiMessages map_block_pass_through tool_results_cache_mark)

lemma single_tool_result_ids:
  assumes "single_tool_result m" and "r \<in> set (stored_tool_results (array_content m))"
  shows "stored_tool_results (array_content m) = [r]"
proof -
  have "length (stored_tool_results (array_content m)) \<le> 1"
    using assms(1) unfolding single_tool_result_def
    by (simp flip: map_fst_stored_tool_results)
  with assms(2) show ?thesis
    by (cases "stored_tool_results (array_content m)") auto
qed

lemma newest_kept:
  assumes single: "list_all single_tool_result ms"
    and newest: "newestToolResult ms = Some r"
  shows "r \<in> set (payload_tool_results (apiMessagesToSend elide saved ms))"
proof -
  from newestToolResult_mem [OF newest]
  obtain m where m: "m \<in> set ms" and r: "r \<in> set (stored_tool_results (array_content m))"
    by blast
  then obtain j where j: "j < length ms" and mj: "ms ! j = m"
    by (auto simp: in_set_conv_nth)
  let ?c = "cachedApiMessages ms ! j"
  from single m r have one: "stored_tool_results (array_content m) = [r]"
    by (simp add: single_tool_result_ids list_all_iff)
  with j mj have sent: "stored_tool_results (map block (api_blocks ?c)) = [r]"
    by (simp add: tool_results_cached)
  then have ids: "tool_result_ids (map block (api_blocks ?c)) = [fst r]"
    by (simp flip: map_fst_stored_tool_results)
  have kept: "elide_message (Some (fst r)) saved ?c = ?c"
    by (rule elide_message_keeps [OF ids])
  have nth: "apiMessagesToSend elide saved ms ! j = ?c"
    using j kept newestToolResultId_fst [OF newest]
    by (simp add: apiMessagesToSend_def length_cachedApiMessages)
  have len: "j < length (apiMessagesToSend elide saved ms)"
    using j by (simp add: apiMessagesToSend_def length_cachedApiMessages)
  have "r \<in> set (sent_tool_results (api_blocks (apiMessagesToSend elide saved ms ! j)))"
    using sent nth by (simp add: sent_tool_results_block)
  with len show ?thesis
    unfolding payload_tool_results_def
    by (auto simp: in_set_conv_nth intro!: bexI [where x = "apiMessagesToSend elide saved ms ! j"])
qed

text \<open>
  C4, as the spec states it, for every history: it fails on a history whose last
  tool-result message holds two \<open>tool_result\<close> blocks. The newest id is taken from the
  last block of the flattened history, the elision test from the first
  \<open>tool_result\<close> block of each message: with an empty saved set the message is
  rewritten to its first block with content \<open>elided\<close>, and the newest result is not
  sent at all.
\<close>

theorem newest_tool_result_elided_counterexample:
  "newestToolResult two_results = Some (''b'', ''second'') \<and>
   payload_tool_results (apiMessagesToSend True {} two_results) = [(''a'', ''elided'')]"
  by (simp add: two_results_def newestToolResult_def array_content_def payload_tool_results_def
                apiMessagesToSend_def cachedApiMessages_def cache_mark_def plain_block_def
                elide_message_def newestToolResultId_def spread_content_def api_blocks_def)

text \<open>
  C4, amended: for every history whose messages hold at most one \<open>tool_result\<close> block
  each (as every tool-result message the orchestrator appends does) and that holds a
  tool result, and for every saved set the judge's verdicts produce, the outbound payload
  built with elision on carries the most recent tool result with its own content.
\<close>

theorem newest_tool_result_never_elided:
  assumes "list_all single_tool_result ms"
    and "newestToolResult ms = Some r"
  shows "r \<in> set (payload_tool_results (apiMessagesToSend True saved ms))"
  using assms by (rule newest_kept)

theorem newest_tool_result_never_elided_witness:
  "list_all single_tool_result one_result \<and>
   newestToolResult one_result = Some (''a'', ''first'') \<and>
   (''a'', ''first'') \<in> set (payload_tool_results (apiMessagesToSend True {} one_result))"
proof -
  have h1: "list_all single_tool_result one_result"
    by (simp add: one_result_def single_tool_result_def array_content_def)
  have h2: "newestToolResult one_result = Some (''a'', ''first'')"
    by (simp add: one_result_def newestToolResult_def array_content_def)
  from newest_tool_result_never_elided [OF h1 h2, of "{}"] h1 h2 show ?thesis
    by simp
qed

section \<open>What one pass of the loop changes\<close>


lemma stream_calls_append: "stream_calls (xs @ ys) = stream_calls xs @ stream_calls ys"
  by (induction xs rule: stream_calls.induct) simp_all

lemma tool_calls_append: "tool_calls (xs @ ys) = tool_calls xs @ tool_calls ys"
  by (induction xs rule: tool_calls.induct) simp_all

lemma await_frame:
  "currentMessages (await p c st s) = currentMessages s"
  "stored (await p c st s) = stored s"
  "savedToolResults (await p c st s) = savedToolResults s"
  "calls (await p c st s) = calls s @ [c]"
  by (simp_all add: await_def cancelCurrentCall_def Let_def)

lemma on_text_frame:
  "currentMessages (on_text acc ds s) = currentMessages s"
  "calls (on_text acc ds s) = calls s"
  "savedToolResults (on_text acc ds s) = savedToolResults s"
  "shouldCancel (on_text acc ds s) = shouldCancel s"
  by (induction acc ds s rule: on_text.induct) (simp_all add: updateConversationMessages_def)

lemma on_text_stored:
  "stored (on_text acc ds s) = stored s \<or>
   (\<exists>t. stored (on_text acc ds s) = currentMessages s @ [currentStreamMessage t])"
proof (induction acc ds s rule: on_text.induct)
  case (1 acc s)
  then show ?case by simp
next
  case (2 acc d ds s)
  then show ?case
    by (auto simp: updateConversationMessages_def)
qed

lemma judge_phase_frame:
  assumes "judge_phase settings st s = Inr s' \<or> judge_phase settings st s = Inl (e, s')"
  shows "currentMessages s' = currentMessages s \<and> stored s' = stored s \<and>
         stream_calls (calls s') = stream_calls (calls s)"
  using assms
  by (auto simp: judge_phase_def await_frame stream_calls_append Let_def
           split: if_splits sum.splits bool.splits Reply.splits list.splits MessageContent.splits)

lemma stream_phase_frame:
  assumes "stream_phase settings servers st s = Inr (s', fr) \<or>
           stream_phase settings servers st s = Inl (e, s')"
  shows "currentMessages s' = currentMessages s \<and>
         (stored s' = stored s \<or> (\<exists>t. stored s' = currentMessages s @ [currentStreamMessage t])) \<and>
         stream_calls (calls s') = stream_calls (calls s) @
           [apiMessagesToSend (elideToolResults settings) (savedToolResults s) (currentMessages s)]"
proof -
  let ?s1 = "await AtStream (StreamCall
        (apiMessagesToSend (elideToolResults settings) (savedToolResults s) (currentMessages s))
        (offered_tools settings servers)) st s"
  from assms have s': "s' = on_text [] (stream_text st) ?s1"
    by (auto simp: stream_phase_def Let_def split: Reply.splits)
  from on_text_stored [of "[]" "stream_text st" ?s1] s'
  show ?thesis
    by (auto simp: on_text_frame await_frame stream_calls_append)
qed

lemma stream_phase_returns:
  assumes "final_message st = Returns fr"
  shows "\<exists>s'. stream_phase settings servers st s = Inr (s', fr) \<and>
              calls s' = calls s @
                [StreamCall (apiMessagesToSend (elideToolResults settings) (savedToolResults s)
                               (currentMessages s)) (offered_tools settings servers)] \<and>
              shouldCancel s' = (shouldCancel s \<or> cancel_at st = Some AtStream)"
  using assms
  by (simp add: stream_phase_def Let_def on_text_frame await_def cancelCurrentCall_def)

lemma title_phase_frame:
  assumes "title_phase st s = Inr s' \<or> title_phase st s = Inl (e, s')"
  shows "currentMessages s' = currentMessages s \<and> stored s' = stored s \<and>
         stream_calls (calls s') = stream_calls (calls s)"
  using assms
  by (auto simp: title_phase_def renameConversation_def await_frame stream_calls_append Let_def
           split: if_splits Reply.splits list.splits MessageContent.splits)

lemma push_message_frame:
  "currentMessages (push_message m s) = currentMessages s @ [m]"
  "stored (push_message m s) = currentMessages s @ [m]"
  "calls (push_message m s) = calls s"
  "shouldCancel (push_message m s) = shouldCancel s"
  by (simp_all add: push_message_def updateConversationMessages_def)

lemma is_tool_result_message_simps:
  "is_tool_result_message (toolResultMessage i r)"
  "is_tool_result_message (errorMessage i e)"
  by (simp_all add: is_tool_result_message_def toolResultMessage_def errorMessage_def)

lemma tool_failed_frame:
  "\<exists>m. is_tool_result_message m \<and>
       currentMessages (result_state (tool_failed i e s)) = currentMessages s @ [m] \<and>
       stored (result_state (tool_failed i e s)) = currentMessages s @ [m] \<and>
       calls (result_state (tool_failed i e s)) = calls s"
  by (auto simp: tool_failed_def Let_def push_message_frame is_tool_result_message_simps)

lemma tool_phase_frame:
  "stream_calls (calls (result_state (tool_phase servers st fr s))) = stream_calls (calls s) \<and>
   ((currentMessages (result_state (tool_phase servers st fr s)) = currentMessages s \<and>
     stored (result_state (tool_phase servers st fr s)) = stored s \<and>
     (\<forall>s'. tool_phase servers st fr s \<noteq> Continue s')) \<or>
    (\<exists>m. is_tool_result_message m \<and>
       currentMessages (result_state (tool_phase servers st fr s)) = currentMessages s @ [m] \<and>
       stored (result_state (tool_phase servers st fr s)) = currentMessages s @ [m]))"
proof (cases "find is_tool_use fr")
  case None
  then show ?thesis by (simp add: tool_phase_def)
next
  case (Some c)
  show ?thesis
  proof (cases c)
    case (Text t)
    with Some show ?thesis by (simp add: tool_phase_def)
  next
    case (ToolResult i r e)
    with Some show ?thesis by (simp add: tool_phase_def)
  next
    case (ToolUse i n inp)
    show ?thesis
    proof (cases "serverWithTool servers n")
      case no_server: None
      with Some ToolUse tool_failed_frame [of i "JsError (''No server found for tool '' @ n)" s]
      show ?thesis by (auto simp: tool_phase_def)
    next
      case (Some sv)
      let ?s1 = "await AtTool (ToolCall (server_id sv) n inp) st s"
      show ?thesis
      proof (cases "tool_reply st")
        case (Returns result)
        with \<open>find is_tool_use fr = Some c\<close> ToolUse Some show ?thesis
          by (auto simp: tool_phase_def Let_def push_message_frame await_frame stream_calls_append
                         is_tool_result_message_simps)
      next
        case (Rejects e)
        with \<open>find is_tool_use fr = Some c\<close> ToolUse Some tool_failed_frame [of i e ?s1]
        show ?thesis
          by (auto simp: tool_phase_def Let_def await_frame stream_calls_append)
      qed
    qed
  qed
qed


lemma roles_pass_through: "api_role (pass_through m) = role m"
  by (simp add: pass_through_def)

lemma roles_cache_mark: "api_role (cache_mark m) = role m"
  by (simp add: cache_mark_def)

lemma roles_elide_message: "api_role (elide_message newest saved msg) = api_role msg"
  by (simp add: elide_message_def
           split: ApiBody.splits option.splits MessageContent.splits)

lemma roles_cachedApiMessages: "map api_role (cachedApiMessages ms) = map role ms"
  by (rule nth_equalityI)
     (simp_all add: cachedApiMessages_def nth_enumerate_eq roles_pass_through roles_cache_mark)

lemma roles_apiMessagesToSend: "map api_role (apiMessagesToSend elide saved ms) = map role ms"
proof -
  have "map api_role (map (elide_message n saved) ams) = map api_role ams" for n ams
    by (induction ams) (simp_all add: roles_elide_message)
  then show ?thesis
    by (simp add: apiMessagesToSend_def roles_cachedApiMessages del: map_map)
qed

lemma iteration_cases:
  obtains
    (judge_throws) e s1 where
      "judge_phase settings st s = Inl (e, s1)"
      "iteration settings servers st s = Throw e s1"
  | (stream_throws) s1 e s2 where
      "judge_phase settings st s = Inr s1"
      "stream_phase settings servers st s1 = Inl (e, s2)"
      "iteration settings servers st s = Throw e s2"
  | (title_throws) s1 s2 fr e s3 where
      "judge_phase settings st s = Inr s1"
      "stream_phase settings servers st s1 = Inr (s2, fr)"
      "title_phase st s2 = Inl (e, s3)"
      "iteration settings servers st s = Throw e s3"
  | (dispatch) s1 s2 fr s3 where
      "judge_phase settings st s = Inr s1"
      "stream_phase settings servers st s1 = Inr (s2, fr)"
      "title_phase st s2 = Inr s3"
      "iteration settings servers st s = tool_phase servers st fr s3"
proof (cases "judge_phase settings st s")
  case (Inl es)
  then show ?thesis
    by (cases es) (simp add: iteration_def judge_throws)
next
  case j: (Inr s1)
  show ?thesis
  proof (cases "stream_phase settings servers st s1")
    case (Inl es)
    with j show ?thesis
      by (cases es) (simp add: iteration_def stream_throws)
  next
    case sp: (Inr sf)
    obtain s2 fr where sf: "sf = (s2, fr)" by (cases sf)
    show ?thesis
    proof (cases "title_phase st s2")
      case (Inl es)
      with j sp sf show ?thesis
        by (cases es) (simp add: iteration_def title_throws)
    next
      case (Inr s3)
      with j sp sf show ?thesis
        by (simp add: iteration_def dispatch)
    qed
  qed
qed


lemma judge_frame_Inr:
  "judge_phase settings st s = Inr s' \<Longrightarrow>
   currentMessages s' = currentMessages s \<and> stored s' = stored s \<and>
   stream_calls (calls s') = stream_calls (calls s)"
  using judge_phase_frame [of settings st s s'] by simp

lemma judge_frame_Inl:
  "judge_phase settings st s = Inl (e, s') \<Longrightarrow>
   currentMessages s' = currentMessages s \<and> stored s' = stored s \<and>
   stream_calls (calls s') = stream_calls (calls s)"
  using judge_phase_frame [of settings st s s' e] by simp

lemma stream_frame_Inr:
  "stream_phase settings servers st s = Inr (s', fr) \<Longrightarrow>
   currentMessages s' = currentMessages s \<and>
   (stored s' = stored s \<or> (\<exists>t. stored s' = currentMessages s @ [currentStreamMessage t])) \<and>
   stream_calls (calls s') = stream_calls (calls s) @
     [apiMessagesToSend (elideToolResults settings) (savedToolResults s) (currentMessages s)]"
  using stream_phase_frame [of settings servers st s s' fr] by simp

lemma stream_frame_Inl:
  "stream_phase settings servers st s = Inl (e, s') \<Longrightarrow>
   currentMessages s' = currentMessages s \<and>
   (stored s' = stored s \<or> (\<exists>t. stored s' = currentMessages s @ [currentStreamMessage t])) \<and>
   stream_calls (calls s') = stream_calls (calls s) @
     [apiMessagesToSend (elideToolResults settings) (savedToolResults s) (currentMessages s)]"
  using stream_phase_frame [of settings servers st s s' _ e] by simp

lemma title_frame_Inr:
  "title_phase st s = Inr s' \<Longrightarrow>
   currentMessages s' = currentMessages s \<and> stored s' = stored s \<and>
   stream_calls (calls s') = stream_calls (calls s)"
  using title_phase_frame [of st s s'] by simp

lemma title_frame_Inl:
  "title_phase st s = Inl (e, s') \<Longrightarrow>
   currentMessages s' = currentMessages s \<and> stored s' = stored s \<and>
   stream_calls (calls s') = stream_calls (calls s)"
  using title_phase_frame [of st s s' e] by simp

text \<open>The working list after a pass: unchanged, or one tool-result message longer.\<close>

lemma iteration_currentMessages:
  "currentMessages (result_state (iteration settings servers st s)) = currentMessages s \<or>
   (\<exists>m. is_tool_result_message m \<and>
        currentMessages (result_state (iteration settings servers st s)) = currentMessages s @ [m])"
proof (cases rule: iteration_cases [of settings st s servers])
  case (judge_throws e s1)
  then show ?thesis by (simp add: judge_frame_Inl)
next
  case (stream_throws s1 e s2)
  then show ?thesis by (simp add: judge_frame_Inr stream_frame_Inl)
next
  case (title_throws s1 s2 fr e s3)
  then show ?thesis by (simp add: judge_frame_Inr stream_frame_Inr title_frame_Inl)
next
  case (dispatch s1 s2 fr s3)
  then have "currentMessages s3 = currentMessages s"
    by (simp add: judge_frame_Inr stream_frame_Inr title_frame_Inr)
  with tool_phase_frame [of servers st fr s3] dispatch(4) show ?thesis
    by auto
qed

text \<open>The stream requests of a pass are built from the working list at its head.\<close>

lemma iteration_stream_calls:
  "\<exists>new. stream_calls (calls (result_state (iteration settings servers st s)))
            = stream_calls (calls s) @ new \<and>
         list_all (\<lambda>p. map api_role p = map role (currentMessages s)) new"
proof (cases rule: iteration_cases [of settings st s servers])
  case (judge_throws e s1)
  then show ?thesis by (simp add: judge_frame_Inl)
next
  case (stream_throws s1 e s2)
  from stream_frame_Inl [OF stream_throws(2)] judge_frame_Inr [OF stream_throws(1)]
    stream_throws(3)
  show ?thesis by (simp add: roles_apiMessagesToSend)
next
  case (title_throws s1 s2 fr e s3)
  from stream_frame_Inr [OF title_throws(2)] judge_frame_Inr [OF title_throws(1)]
    title_frame_Inl [OF title_throws(3)] title_throws(4)
  show ?thesis by (simp add: roles_apiMessagesToSend)
next
  case (dispatch s1 s2 fr s3)
  from stream_frame_Inr [OF dispatch(2)] judge_frame_Inr [OF dispatch(1)]
    title_frame_Inr [OF dispatch(3)] dispatch(4) tool_phase_frame [of servers st fr s3]
  show ?thesis by (simp add: roles_apiMessagesToSend)
qed

text \<open>
  The store after a pass is the working list, or the working list and the streamed
  assistant message; after a pass that continues it is the working list.
\<close>

lemma iteration_stored:
  assumes head: "stored s = currentMessages s"
  shows "stored (result_state (iteration settings servers st s))
           = currentMessages (result_state (iteration settings servers st s)) \<or>
         (\<exists>t. stored (result_state (iteration settings servers st s))
           = currentMessages (result_state (iteration settings servers st s)) @ [currentStreamMessage t])"
proof (cases rule: iteration_cases [of settings st s servers])
  case (judge_throws e s1)
  with head show ?thesis by (simp add: judge_frame_Inl)
next
  case (stream_throws s1 e s2)
  from stream_frame_Inl [OF stream_throws(2)] judge_frame_Inr [OF stream_throws(1)]
    head stream_throws(3)
  show ?thesis by auto
next
  case (title_throws s1 s2 fr e s3)
  from stream_frame_Inr [OF title_throws(2)] judge_frame_Inr [OF title_throws(1)]
    title_frame_Inl [OF title_throws(3)] head title_throws(4)
  show ?thesis by auto
next
  case (dispatch s1 s2 fr s3)
  from stream_frame_Inr [OF dispatch(2)] judge_frame_Inr [OF dispatch(1)]
    title_frame_Inr [OF dispatch(3)] head
  have "currentMessages s3 = currentMessages s"
    "stored s3 = currentMessages s3 \<or> (\<exists>t. stored s3 = currentMessages s3 @ [currentStreamMessage t])"
    by auto
  with tool_phase_frame [of servers st fr s3] dispatch(4) show ?thesis
    by auto
qed

lemma iteration_Continue:
  assumes "iteration settings servers st s = Continue s'"
  shows "stored s' = currentMessages s' \<and>
         (\<exists>m. is_tool_result_message m \<and> currentMessages s' = currentMessages s @ [m])"
proof (cases rule: iteration_cases [of settings st s servers])
  case (judge_throws e s1)
  with assms show ?thesis by simp
next
  case (stream_throws s1 e s2)
  with assms show ?thesis by simp
next
  case (title_throws s1 s2 fr e s3)
  with assms show ?thesis by simp
next
  case (dispatch s1 s2 fr s3)
  then have "currentMessages s3 = currentMessages s"
    by (simp add: judge_frame_Inr stream_frame_Inr title_frame_Inr)
  moreover have tp: "tool_phase servers st fr s3 = Continue s'"
    using assms dispatch(4) by simp
  moreover note tool_phase_frame [of servers st fr s3]
  ultimately show ?thesis
    by (auto simp: tp)
qed


lemma turn_shape_iff:
  "turn_shape base cm \<longleftrightarrow> (\<exists>trs. cm = base @ trs \<and> list_all is_tool_result_message trs)"
proof
  assume a: "turn_shape base cm"
  then have "cm = base @ drop (length base) cm"
    unfolding turn_shape_def by (metis append_take_drop_id)
  with a show "\<exists>trs. cm = base @ trs \<and> list_all is_tool_result_message trs"
    unfolding turn_shape_def by blast
next
  assume "\<exists>trs. cm = base @ trs \<and> list_all is_tool_result_message trs"
  then show "turn_shape base cm"
    by (auto simp: turn_shape_def)
qed

lemma turn_shape_snoc:
  "turn_shape base cm \<Longrightarrow> is_tool_result_message m \<Longrightarrow> turn_shape base (cm @ [m])"
  unfolding turn_shape_iff by auto

lemma tool_result_message_role: "is_tool_result_message m \<Longrightarrow> role m = user"
  by (simp add: is_tool_result_message_def
           split: MessageBody.splits list.splits MessageContent.splits)

lemma turn_shape_roles:
  assumes "turn_shape base cm" and "h \<le> length base"
    and "list_all (\<lambda>m. role m = user) (drop h base)"
  shows "list_all (\<lambda>m. role m = user) (drop h cm)"
proof -
  from assms(1) obtain trs where cm: "cm = base @ trs"
    and trs: "list_all is_tool_result_message trs"
    unfolding turn_shape_iff by blast
  from trs have "list_all (\<lambda>m. role m = user) trs"
    by (auto simp: list_all_iff tool_result_message_role)
  with assms(2,3) cm show ?thesis by simp
qed

text \<open>The invariant of the loop, carried from its head to its end.\<close>

lemma loop_invariant:
  assumes "loop fuel settings servers world k s = Some r"
    and "stored s = currentMessages s"
    and "turn_shape base (currentMessages s)"
    and "list_all (omits_assistant h) (drop n (stream_calls (calls s)))"
    and "n \<le> length (stream_calls (calls s))"
    and "h \<le> length base" and "list_all (\<lambda>m. role m = user) (drop h base)"
  shows "turn_shape base (currentMessages (end_state r)) \<and>
         list_all (omits_assistant h) (drop n (stream_calls (calls (end_state r)))) \<and>
         (stored (end_state r) = currentMessages (end_state r) \<or>
          (\<exists>t. stored (end_state r) = currentMessages (end_state r) @ [currentStreamMessage t]))"
  using assms
proof (induction fuel arbitrary: k s)
  case 0
  then show ?case by simp
next
  case (Suc fuel)
  let ?it = "iteration settings servers (world k) s"
  let ?rs = "result_state ?it"
  have shape: "turn_shape base (currentMessages ?rs)"
    using iteration_currentMessages [of settings servers "world k" s] Suc.prems(3)
    by (auto simp: turn_shape_snoc)
  have roles: "list_all (\<lambda>m. role m = user) (drop h (currentMessages s))"
    using Suc.prems(3,6,7) by (simp add: turn_shape_roles)
  from iteration_stream_calls [of settings servers "world k" s]
  obtain new where new: "stream_calls (calls ?rs) = stream_calls (calls s) @ new"
    and from_head: "list_all (\<lambda>p. map api_role p = map role (currentMessages s)) new"
    by blast
  have "list_all (omits_assistant h) new"
    unfolding list_all_iff
  proof
    fix p
    assume "p \<in> set new"
    with from_head have "map api_role p = map role (currentMessages s)"
      by (simp add: list_all_iff)
    then have "map api_role (drop h p) = map role (drop h (currentMessages s))"
      by (simp add: drop_map [symmetric])
    with roles show "omits_assistant h p"
      unfolding omits_assistant_def list_all_iff
      by (metis (no_types, lifting) image_iff list.set_map)
  qed
  with new Suc.prems(4,5)
  have new_calls: "list_all (omits_assistant h) (drop n (stream_calls (calls ?rs)))"
    and bound: "n \<le> length (stream_calls (calls ?rs))"
    by simp_all
  show ?case
  proof (cases ?it)
    case (Continue s')
    from iteration_Continue [OF Continue] have head': "stored s' = currentMessages s'"
      by simp
    from Continue Suc.prems(1) have run: "loop fuel settings servers world (Suc k) s' = Some r"
      by simp
    from shape new_calls bound Continue
    show ?thesis
      using Suc.IH [OF run head' _ _ _ Suc.prems(6,7)] by simp
  next
    case (Break s')
    with Suc.prems(1) have "r = Finished s'" by simp
    with shape new_calls Break iteration_stored [OF Suc.prems(2), of settings servers "world k"]
    show ?thesis by simp
  next
    case (Throw e s')
    with Suc.prems(1) have "r = Failed e s'" by simp
    with shape new_calls Throw iteration_stored [OF Suc.prems(2), of settings servers "world k"]
    show ?thesis by simp
  qed
qed

lemma start_turn_frame:
  "currentMessages (start_turn inputMessage s) = stored s @ [userMessage inputMessage]"
  "stored (start_turn inputMessage s) = stored s @ [userMessage inputMessage]"
  "calls (start_turn inputMessage s) = calls s"
  by (simp_all add: start_turn_def updateConversationMessages_def)

text \<open>
  C10: in every turn whose loop ends, the working list \<open>currentMessages\<close> is the
  history and the submitted user message followed by tool-result messages only (role
  user, one \<open>tool_result\<close> block), so it never holds an assistant response; every
  request of the turn is built from that list and has no assistant message after the
  history; and the store ends as the working list, or as the working list followed by
  the one streamed assistant text of the last pass. Whenever a pass appends a tool
  result and goes on, the store is replaced by the working list, which drops the
  assistant message streamed in that pass.
\<close>

theorem working_list_never_holds_assistant_reply:
  assumes "loop fuel settings servers world 0 (start_turn inputMessage s) = Some r"
  shows "turn_shape (stored s @ [userMessage inputMessage]) (currentMessages (end_state r)) \<and>
         list_all (omits_assistant (length (stored s)))
           (drop (length (stream_calls (calls s))) (stream_calls (calls (end_state r)))) \<and>
         (stored (end_state r) = currentMessages (end_state r) \<or>
          (\<exists>t. stored (end_state r) = currentMessages (end_state r) @ [currentStreamMessage t])) \<and>
         (\<forall>st s0 s1. iteration settings servers st s0 = Continue s1 \<longrightarrow>
            stored s1 = currentMessages s1 \<and>
            (\<exists>m. is_tool_result_message m \<and> currentMessages s1 = currentMessages s0 @ [m]))"
proof (intro conjI allI impI)
  fix st s0 s1
  assume "iteration settings servers st s0 = Continue s1"
  from iteration_Continue [OF this]
  show "stored s1 = currentMessages s1"
    and "\<exists>m. is_tool_result_message m \<and> currentMessages s1 = currentMessages s0 @ [m]"
    by simp_all
next
  have "turn_shape (stored s @ [userMessage inputMessage]) (currentMessages (end_state r)) \<and>
        list_all (omits_assistant (length (stored s)))
          (drop (length (stream_calls (calls s))) (stream_calls (calls (end_state r)))) \<and>
        (stored (end_state r) = currentMessages (end_state r) \<or>
         (\<exists>t. stored (end_state r) = currentMessages (end_state r) @ [currentStreamMessage t]))"
  proof (rule loop_invariant [OF assms])
    show "stored (start_turn inputMessage s) = currentMessages (start_turn inputMessage s)"
      by (simp add: start_turn_frame)
    show "turn_shape (stored s @ [userMessage inputMessage]) (currentMessages (start_turn inputMessage s))"
      by (simp add: start_turn_frame turn_shape_def)
    show "list_all (omits_assistant (length (stored s)))
            (drop (length (stream_calls (calls s))) (stream_calls (calls (start_turn inputMessage s))))"
      by (simp add: start_turn_frame)
    show "length (stream_calls (calls s)) \<le> length (stream_calls (calls (start_turn inputMessage s)))"
      by (simp add: start_turn_frame)
    show "length (stored s) \<le> length (stored s @ [userMessage inputMessage])"
      by simp
    show "list_all (\<lambda>m. role m = user) (drop (length (stored s)) (stored s @ [userMessage inputMessage]))"
      by (simp add: userMessage_def)
  qed
  then show "turn_shape (stored s @ [userMessage inputMessage]) (currentMessages (end_state r))"
    and "list_all (omits_assistant (length (stored s)))
          (drop (length (stream_calls (calls s))) (stream_calls (calls (end_state r))))"
    and "stored (end_state r) = currentMessages (end_state r) \<or>
         (\<exists>t. stored (end_state r) = currentMessages (end_state r) @ [currentStreamMessage t])"
    by simp_all
qed

theorem working_list_never_holds_assistant_reply_witness:
  "\<exists>r. loop 2 settings0 [search_server] search_then_answer 0 (start_turn ''find it'' idle) = Some r \<and>
       turn_shape (stored idle @ [userMessage ''find it'']) (currentMessages (end_state r)) \<and>
       list_all (omits_assistant (length (stored idle)))
         (drop (length (stream_calls (calls idle))) (stream_calls (calls (end_state r)))) \<and>
       currentMessages (end_state r) = [userMessage ''find it'', toolResultMessage ''t1'' ''42 results''] \<and>
       stored (end_state r) = currentMessages (end_state r) @ [currentStreamMessage ''Done''] \<and>
       length (stream_calls (calls (end_state r))) = 2 \<and>
       (\<exists>s1. iteration settings0 [search_server] (search_then_answer 0) (start_turn ''find it'' idle)
               = Continue s1 \<and>
             stored s1 = [userMessage ''find it'', toolResultMessage ''t1'' ''42 results''] \<and>
             currentMessages s1 = stored s1)"
proof -
  have "loop 2 settings0 [search_server] search_then_answer 0 (start_turn ''find it'' idle) \<noteq> None"
    by code_simp
  then obtain r where
    run: "loop 2 settings0 [search_server] search_then_answer 0 (start_turn ''find it'' idle) = Some r"
    by blast
  have "map_option (\<lambda>r. (currentMessages (end_state r), stored (end_state r),
            length (stream_calls (calls (end_state r)))))
          (loop 2 settings0 [search_server] search_then_answer 0 (start_turn ''find it'' idle))
        = Some ([userMessage ''find it'', toolResultMessage ''t1'' ''42 results''],
                [userMessage ''find it'', toolResultMessage ''t1'' ''42 results'',
                 currentStreamMessage ''Done''], 2)"
    by code_simp
  with run have concrete:
    "currentMessages (end_state r) = [userMessage ''find it'', toolResultMessage ''t1'' ''42 results'']"
    "stored (end_state r) = currentMessages (end_state r) @ [currentStreamMessage ''Done'']"
    "length (stream_calls (calls (end_state r))) = 2"
    by simp_all
  have "case iteration settings0 [search_server] (search_then_answer 0)
               (start_turn ''find it'' idle) of
          Continue s1 \<Rightarrow> True | Break s1 \<Rightarrow> False | Throw e s1 \<Rightarrow> False"
    by code_simp
  then obtain s1 where
    pass: "iteration settings0 [search_server] (search_then_answer 0) (start_turn ''find it'' idle)
             = Continue s1"
    by (cases "iteration settings0 [search_server] (search_then_answer 0)
                 (start_turn ''find it'' idle)") simp_all
  have "currentMessages (result_state (iteration settings0 [search_server] (search_then_answer 0)
                                          (start_turn ''find it'' idle)))
          = [userMessage ''find it'', toolResultMessage ''t1'' ''42 results'']"
    by code_simp
  with pass have cm1: "currentMessages s1 = [userMessage ''find it'', toolResultMessage ''t1'' ''42 results'']"
    by simp
  from working_list_never_holds_assistant_reply [OF run] pass
  have "stored s1 = currentMessages s1"
    by blast
  with working_list_never_holds_assistant_reply [OF run] concrete run pass cm1
  show ?thesis by auto
qed

section \<open>The saved set, from the judge's reply to the payload\<close>












section \<open>A title call that fails\<close>

text \<open>
  C8, as the spec states it: a failing title call leaves the turn unaffected and raises
  no user-visible error. It fails on a new conversation whose first response asks for a
  search: the second pass makes the title call, the call is rejected, and the turn ends
  with the rejection's message as its error.
\<close>

theorem title_failure_absorbed_counterexample:
  "map_option (\<lambda>s. (error s, title_calls (calls s)))
     (handleSendMessage 2 settings0 [search_server] title_rejected ''find it'' idle)
   = Some (Some ''overloaded'', 1)"
  by code_simp

text \<open>
  C8, amended: when the title call of a pass fails (the judge step and the stream of
  that pass having gone through), the failure is not absorbed. The loop ends in that
  pass with the failure: after the stream request and the title call it starts no
  other call, so the final response's tool is not dispatched, nothing is appended to
  the working list, and the failure's message becomes the turn's error unless the cancel
  flag is set at that moment.
\<close>

theorem title_failure_ends_turn:
  assumes "judge_phase settings (world k) s = Inr s1"
    and "final_message (world k) = Returns finalResponse"
    and "length (currentMessages s) = 2"
    and "title_reply (world k) = Rejects e"
  shows "\<exists>s'. loop (Suc fuel) settings servers world k s = Some (Failed e s') \<and>
              currentMessages s' = currentMessages s \<and>
              calls s' = calls s1 @
                [StreamCall (apiMessagesToSend (elideToolResults settings) (savedToolResults s1)
                               (currentMessages s)) (offered_tools settings servers),
                 TitleCall] \<and>
              error (settle (Failed e s')) =
                (if shouldCancel s' then error s' else Some (error_text e))"
proof -
  from judge_frame_Inr [OF assms(1)] have cm1: "currentMessages s1 = currentMessages s"
    by simp
  from stream_phase_returns [OF assms(2), of settings servers s1]
  obtain s2 where sp: "stream_phase settings servers (world k) s1 = Inr (s2, finalResponse)"
    and calls2: "calls s2 = calls s1 @
          [StreamCall (apiMessagesToSend (elideToolResults settings) (savedToolResults s1)
                         (currentMessages s1)) (offered_tools settings servers)]"
    by blast
  from stream_frame_Inr [OF sp] cm1 have cm2: "currentMessages s2 = currentMessages s"
    by simp
  let ?s3 = "await AtTitle TitleCall (world k) s2"
  have tp: "title_phase (world k) s2 = Inl (e, ?s3)"
    using assms(3,4) cm2 by (simp add: title_phase_def length_cachedApiMessages Let_def)
  have "iteration settings servers (world k) s = Throw e ?s3"
    using assms(1) sp tp by (simp add: iteration_def)
  then have "loop (Suc fuel) settings servers world k s = Some (Failed e ?s3)"
    by simp
  moreover have "currentMessages ?s3 = currentMessages s"
    using cm2 by (simp add: await_frame)
  moreover have "calls ?s3 = calls s1 @
      [StreamCall (apiMessagesToSend (elideToolResults settings) (savedToolResults s1)
                     (currentMessages s)) (offered_tools settings servers), TitleCall]"
    using calls2 cm1 by (simp add: await_frame)
  moreover have "error (settle (Failed e ?s3)) =
      (if shouldCancel ?s3 then error ?s3 else Some (error_text e))"
    by (simp add: settle_def)
  ultimately show ?thesis by blast
qed

theorem title_failure_ends_turn_witness:
  "\<exists>s'. loop 1 settings0 [search_server] title_rejected 1 (start_turn ''again'' one_message_history)
           = Some (Failed (JsError ''overloaded'') s') \<and>
        tool_calls (calls s') = [] \<and>
        error (settle (Failed (JsError ''overloaded'') s')) = Some ''overloaded''"
proof -
  let ?s = "start_turn ''again'' one_message_history"
  have h1: "judge_phase settings0 (title_rejected 1) ?s = Inr ?s"
    by (simp add: judge_phase_def settings0_def)
  have h2: "final_message (title_rejected 1)
              = Returns [Text ''Searching'', ToolUse ''t1'' ''search'' ''{}'']"
    by (simp add: title_rejected_def ask_search_def)
  have h3: "length (currentMessages ?s) = 2"
    by (simp add: start_turn_def one_message_history_def idle_def updateConversationMessages_def)
  have h4: "title_reply (title_rejected 1) = Rejects (JsError ''overloaded'')"
    by (simp add: title_rejected_def ask_search_def)
  from title_failure_ends_turn [where world = title_rejected and k = 1 and fuel = 0
      and servers = "[search_server]", OF h1 h2 h3 h4]
  obtain s' where run: "loop (Suc 0) settings0 [search_server] title_rejected 1 ?s
                          = Some (Failed (JsError ''overloaded'') s')"
    and calls: "calls s' = calls ?s @
          [StreamCall (apiMessagesToSend (elideToolResults settings0) (savedToolResults ?s)
                         (currentMessages ?s)) (offered_tools settings0 [search_server]),
           TitleCall]"
    and err: "error (settle (Failed (JsError ''overloaded'') s')) =
          (if shouldCancel s' then error s' else Some (error_text (JsError ''overloaded'')))"
    by blast
  have "map_option (\<lambda>r. shouldCancel (end_state r))
          (loop (Suc 0) settings0 [search_server] title_rejected 1 ?s) = Some False"
    by code_simp
  with run have "\<not> shouldCancel s'" by simp
  with err have "error (settle (Failed (JsError ''overloaded'') s')) = Some ''overloaded''"
    by (simp add: error_text_def)
  moreover from calls have "tool_calls (calls s') = []"
    by (simp add: tool_calls_append start_turn_def one_message_history_def idle_def
                  updateConversationMessages_def)
  ultimately show ?thesis using run by auto
qed

section \<open>Termination of the loop\<close>

lemma tool_phase_no_tool:
  "find is_tool_use fr = None \<Longrightarrow> tool_phase servers st fr s = Break s"
  by (simp add: tool_phase_def)

lemma tool_phase_never_throws: "tool_phase servers st fr s \<noteq> Throw e s'"
  by (auto simp: tool_phase_def tool_failed_def Let_def
           split: option.splits MessageContent.splits Reply.splits)

lemma iteration_dispatches:
  assumes "\<not> elideToolResults settings" and "final_message st = Returns fr"
    and "title_succeeds st"
  shows "\<exists>s3. iteration settings servers st s = tool_phase servers st fr s3"
proof -
  have j: "judge_phase settings st s = Inr s"
    using assms(1) by (simp add: judge_phase_def)
  from stream_phase_returns [OF assms(2), of settings servers s]
  obtain s2 where sp: "stream_phase settings servers st s = Inr (s2, fr)"
    by blast
  have "\<exists>s3. title_phase st s2 = Inr s3"
  proof (cases "title_reply st")
    case (Returns cs)
    with assms(3) obtain c cs' where "cs = c # cs'"
      by (cases cs) (simp_all add: title_succeeds_def)
    with Returns show ?thesis
      by (cases c) (simp_all add: title_phase_def Let_def)
  next
    case (Rejects e)
    with assms(3) show ?thesis by (simp add: title_succeeds_def)
  qed
  with j sp show ?thesis
    by (auto simp: iteration_def)
qed

text \<open>
  With elision off and title calls that return: after \<open>n\<close> responses that ask for a
  tool and one that does not, the loop has ended, without a failure, within \<open>n + 1\<close>
  passes.
\<close>

lemma loop_terminates:
  assumes "\<not> elideToolResults settings"
    and "\<forall>j<n. asks_for_tool (world (k + j)) \<and> title_succeeds (world (k + j))"
    and "answers_without_tool (world (k + n))" and "title_succeeds (world (k + n))"
  shows "\<exists>s'. loop (Suc n) settings servers world k s = Some (Finished s')"
  using assms(2-4)
proof (induction n arbitrary: k s)
  case 0
  from 0(2) obtain fr where fr: "final_message (world k) = Returns fr"
    and none: "find is_tool_use fr = None"
    by (auto simp: answers_without_tool_def split: Reply.splits)
  from iteration_dispatches [OF assms(1) fr, of servers s] 0(3)
  obtain s3 where "iteration settings servers (world k) s = tool_phase servers (world k) fr s3"
    by auto
  with none show ?case
    by (simp add: tool_phase_no_tool)
next
  case (Suc n)
  from Suc.prems(1) have here: "asks_for_tool (world k)" "title_succeeds (world k)"
    by (metis add.right_neutral zero_less_Suc)+
  then obtain fr where fr: "final_message (world k) = Returns fr"
    by (auto simp: asks_for_tool_def split: Reply.splits)
  from iteration_dispatches [OF assms(1) fr here(2), of servers s]
  obtain s3 where it: "iteration settings servers (world k) s = tool_phase servers (world k) fr s3"
    by blast
  have later: "\<forall>j<n. asks_for_tool (world (Suc k + j)) \<and> title_succeeds (world (Suc k + j))"
    using Suc.prems(1) by (metis Suc_less_eq add_Suc_shift)
  have last: "answers_without_tool (world (Suc k + n))" "title_succeeds (world (Suc k + n))"
    using Suc.prems(2,3) by simp_all
  show ?case
  proof (cases "tool_phase servers (world k) fr s3")
    case (Continue s')
    with it Suc.IH [OF later last, of s'] show ?thesis by simp
  next
    case (Break s')
    with it show ?thesis by simp
  next
    case (Throw e s')
    with tool_phase_never_throws show ?thesis by blast
  qed
qed

lemma loop_more_fuel:
  "loop fuel settings servers world k s = Some r \<Longrightarrow>
   loop (fuel + extra) settings servers world k s = Some r"
proof (induction fuel arbitrary: k s)
  case 0
  then show ?case by simp
next
  case (Suc fuel)
  then show ?case
    by (cases "iteration settings servers (world k) s") simp_all
qed

section \<open>What the loop leaves in the store, and when it sends\<close>

text \<open>
  C1 says that after a run of tool-use responses and a final response the store holds
  alternating tool_use/tool_result pairs with matching ids. The loop does end
  (\<open>loop_terminates\<close>), but the assistant response is never pushed to
  \<open>currentMessages\<close>, and the tool result is stored by replacing the store with
  \<open>currentMessages\<close>: after one search and the final answer the store holds the user
  message, the tool result \<open>t1\<close> and the last streamed text, and no \<open>tool_use\<close>
  block at all.
\<close>

theorem store_holds_no_tool_use:
  "map_option (\<lambda>s. (stored s, tool_use_ids (stored_blocks s), tool_result_ids (stored_blocks s)))
     (handleSendMessage 2 settings0 [search_server] search_then_answer ''find it'' idle)
   = Some ([userMessage ''find it'', toolResultMessage ''t1'' ''42 results'',
            currentStreamMessage ''Done''],
           [], [''t1''])"
  by code_simp

text \<open>A tool that returns sends the loop into its next pass, whatever the cancel flag is.\<close>

lemma tool_returns_continues:
  assumes "find is_tool_use fr = Some (ToolUse i n inp)"
    and "serverWithTool servers n = Some sv" and "tool_reply st = Returns result"
  shows "tool_phase servers st fr s =
           Continue (push_message (toolResultMessage i result)
                       (await AtTool (ToolCall (server_id sv) n inp) st s))"
  using assms by (simp add: tool_phase_def Let_def)

text \<open>
  C5 says that once the cancel flag is set while a tool executes, no further request is
  started. The flag is read only at the foot of the loop, and a tool that returns leaves
  the pass by \<open>continue\<close> before that: with the flag set during the search (the pass
  ends with \<open>shouldCancel\<close> true), the loop sends a second request all the same.
\<close>

theorem cancel_during_tool_sends_again:
  "(case iteration settings0 [search_server] (cancel_during_search 0) (start_turn ''find it'' idle) of
      Continue s \<Rightarrow> shouldCancel s
    | Break s \<Rightarrow> False
    | Throw e s \<Rightarrow> False) \<and>
   map_option (\<lambda>s. (length (stream_calls (calls s)), tool_calls (calls s), error s))
     (handleSendMessage 2 settings0 [search_server] cancel_during_search ''find it'' idle)
   = Some (2, [(''a'', ''search'')], Some ''Operation cancelled'')"
  by code_simp

text \<open>
  With no server advertising the tool, exactly one error-flagged tool result is appended,
  and the loop goes on unless the cancel flag is set.
\<close>

lemma no_server_appends_error_result:
  assumes "find is_tool_use fr = Some (ToolUse i n inp)" and "serverWithTool servers n = None"
  shows "tool_phase servers st fr s =
           (if shouldCancel s
            then Break (push_message (errorMessage i (JsError (''No server found for tool '' @ n))) s)
            else Continue (push_message (errorMessage i (JsError (''No server found for tool '' @ n))) s))"
  using assms by (simp add: tool_phase_def tool_failed_def Let_def push_message_frame)

text \<open>
  C6 says that the dispatcher takes the first server, among the project's configured
  servers, that advertises the tool. getUniqueTools filters the servers by the project's
  settings; the dispatch searches all servers of the MCP context: with a server the
  project has not configured listed before the configured one, both advertising
  \<open>search\<close>, the tool runs on the server that is not configured.
\<close>

theorem dispatch_ignores_project_servers:
  "map_option server_id (serverWithTool [other_server, search_server] ''search'') = Some ''x'' \<and>
   map_option server_id
     (configuredServerWithTool (mcpServers settings0) [other_server, search_server] ''search'')
     = Some ''a'' \<and>
   map_option (\<lambda>s. tool_calls (calls s))
     (handleSendMessage 2 settings0 [other_server, search_server] search_then_answer ''find it'' idle)
     = Some [(''x'', ''search'')]"
  by code_simp

text \<open>A rename is undone by the next write of the messages in the same turn.\<close>

lemma rename_undone_by_store_write:
  "conversation_name (push_message m (renameConversation newName s)) = rendered_name s"
  by (simp add: push_message_def updateConversationMessages_def renameConversation_def)

text \<open>A pass whose working list does not hold two messages makes no title call.\<close>

lemma no_title_call_unless_two_messages:
  "length (currentMessages s) \<noteq> 2 \<Longrightarrow> title_phase st s = Inr s"
  by (simp add: title_phase_def length_cachedApiMessages)

text \<open>
  C7 says that a new conversation reaching two messages gets exactly one title call. The
  call is guarded by \<open>cachedApiMessages.length === 2\<close>, and the assistant response is
  not in that list: a new conversation answered at once ends with two stored messages,
  no title call and its old name (the reply \<open>Title: Weather Forecast\<close> would have
  given the name \<open>Weather Forecast\<close>).
\<close>

theorem new_conversation_gets_no_title:
  "map_option (\<lambda>s. (length (stored s), title_calls (calls s), conversation_name s))
     (handleSendMessage 1 settings0 [search_server] just_answer ''What is 2+2?'' idle)
   = Some (2, 0, ''New Chat'') \<and>
   suggestedTitle ''Title: Weather Forecast'' = ''Weather Forecast''"
  by code_simp

end
